theory Spec2Isabelle
  imports Main "HOL-Library.AList"
begin

section \<open>The browser pool of index.js\<close>

text \<open>
  A shallow embedding of the pool manager of \<^verbatim>\<open>src/index.js\<close>: the module state
  (\<^verbatim>\<open>instances\<close>, \<^verbatim>\<open>nextPort\<close>, \<^verbatim>\<open>assignedPort\<close>, \<^verbatim>\<open>assignedClient\<close>) is a record that
  every operation takes and returns; what the outside world answers (the clock, the
  port probe, the health probe, the SSE handshake, the forwarded call) is an argument.
  Each \<^verbatim>\<open>await\<close> is read sequentially: an operation runs to its end before the next one
  starts. The one call the source does not await, \<^verbatim>\<open>killInstance\<close> in the cleanup timer,
  is split at its \<^verbatim>\<open>await\<close>.
\<close>

subsection \<open>Configuration\<close>

definition BASE_PORT :: int where
  "BASE_PORT = 9000"

definition MAX_INSTANCES :: nat where
  "MAX_INSTANCES = 10"

definition INSTANCE_TIMEOUT_MS :: int where
  "INSTANCE_TIMEOUT_MS = 30 * 60 * 1000"

subsection \<open>Data\<close>

type_synonym port = int
type_synonym proc = nat
type_synonym chan = nat

text \<open>
  One entry of the \<^verbatim>\<open>instances\<close> map: \<^verbatim>\<open>{ process, client, lastUsed, sessionId }\<close>.
  A process handle is the serial number of the \<^verbatim>\<open>spawn\<close> call that made it; a call
  channel (the SDK \<^verbatim>\<open>Client\<close>) is a handle chosen by the environment.
\<close>

record worker =
  process :: proc
  client :: chan
  lastUsed :: int
  sessionId :: string

text \<open>
  What the manager does to the outside world, in order: the child processes it spawns
  and kills, the channels it closes (with or without an error from \<^verbatim>\<open>close\<close>), and the
  entries it registers.
\<close>

datatype event =
    Spawned port proc
  | Closed chan
  | CloseFailed chan
  | Killed proc
  | Registered port chan

text \<open>
  The module state. \<^verbatim>\<open>instances\<close> is a JavaScript \<^verbatim>\<open>Map\<close>, which iterates in insertion
  order: an association list, where \<^const>\<open>AList.update\<close> is \<^verbatim>\<open>Map.set\<close> (a new key goes
  to the end, a present key keeps its place) and \<^const>\<open>AList.delete\<close> is \<^verbatim>\<open>Map.delete\<close>.
  \<^verbatim>\<open>null\<close> is \<^const>\<open>None\<close>.
\<close>

record state =
  instances :: "(port \<times> worker) list"
  nextPort :: port
  assignedPort :: "port option"
  assignedClient :: "chan option"
  session :: string
  trace :: "event list"

definition init :: "string \<Rightarrow> state" where
  "init sid = \<lparr>instances = [], nextPort = BASE_PORT, assignedPort = None,
     assignedClient = None, session = sid, trace = []\<rparr>"

datatype error =
    NoAvailablePorts
  | ServerTimeout port
  | ConnectError string

text \<open>
  The outcome of an \<^verbatim>\<open>async\<close> function: its promise resolves, rejects, or never settles.
\<close>

datatype 'a outcome = Return 'a | Throw error | Pending

subsection \<open>waitForServer\<close>

text \<open>
  One health probe (\<^verbatim>\<open>http.request\<close> to \<^verbatim>\<open>/sse\<close>) started at a given time either gets
  a response (after some milliseconds, with some status code), or emits \<^verbatim>\<open>error\<close>
  (after some milliseconds), or does neither: the \<^verbatim>\<open>timeout: 2000\<close> option has no
  listener, so nothing in the source reacts to it.
\<close>

datatype probe = Response nat nat | Failure nat | Silent

datatype ready = Ready | TimedOut

text \<open>
  \<^verbatim>\<open>check\<close>, started at time \<open>t\<close>: a response resolves; an error rejects when
  \<^verbatim>\<open>Date.now() - start > timeout\<close> and otherwise schedules \<^verbatim>\<open>check\<close> 1000 ms later.
  \<^const>\<open>None\<close> is a promise that never settles.
\<close>

function check :: "(int \<Rightarrow> probe) \<Rightarrow> int \<Rightarrow> int \<Rightarrow> int \<Rightarrow> ready option" where
  "check req start timeout t =
     (case req t of
        Response d status \<Rightarrow> Some Ready
      | Failure d \<Rightarrow>
          (if t + int d - start > timeout then Some TimedOut
           else check req start timeout (t + int d + 1000))
      | Silent \<Rightarrow> None)"
  by pat_completeness auto
termination
  by (relation "measure (\<lambda>(req, start, timeout, t). nat (start + timeout + 1 - t))") auto

declare check.simps [simp del]

definition waitForServer :: "(int \<Rightarrow> probe) \<Rightarrow> int \<Rightarrow> int \<Rightarrow> ready option" where
  "waitForServer req start timeout = check req start timeout (start + 3000)"

subsection \<open>killInstance and the exit handler\<close>

text \<open>
  \<^verbatim>\<open>killInstance(port)\<close>: nothing when the map has no entry; otherwise close the channel
  (an exception from \<^verbatim>\<open>close\<close> is caught and dropped), kill the process, delete the
  entry. \<open>closeThrows\<close> says whether \<^verbatim>\<open>client.close()\<close> throws.
\<close>

definition killInstance :: "bool \<Rightarrow> port \<Rightarrow> state \<Rightarrow> state" where
  "killInstance closeThrows port s =
     (case map_of (instances s) port of
        None \<Rightarrow> s
      | Some inst \<Rightarrow>
          s\<lparr>instances := AList.delete port (instances s),
            trace := trace s @
              [if closeThrows then CloseFailed (client inst) else Closed (client inst),
               Killed (process inst)]\<rparr>)"

text \<open>
  The \<^verbatim>\<open>exit\<close> handler installed on each spawned process: delete the port's entry and,
  when the port is the assigned one, clear the assignment.
\<close>

definition onExit :: "port \<Rightarrow> state \<Rightarrow> state" where
  "onExit port s =
     (let s1 = s\<lparr>instances := AList.delete port (instances s)\<rparr>
      in if assignedPort s1 = Some port
         then s1\<lparr>assignedPort := None, assignedClient := None\<rparr>
         else s1)"

subsection \<open>getOrCreateInstance\<close>

text \<open>
  What one call of \<^verbatim>\<open>getOrCreateInstance\<close> reads from the outside: \<^verbatim>\<open>Date.now()\<close> for
  \<^verbatim>\<open>lastUsed\<close>; whether \<^verbatim>\<open>close\<close> throws in an eviction; \<^verbatim>\<open>isPortInUse\<close> (the scan probes
  no port twice, so a function of the port is general); \<^verbatim>\<open>Date.now()\<close> at the start of
  the readiness wait and the health probes of each port; the result of
  \<^verbatim>\<open>createMcpClient\<close> (a channel, or the message of the error it throws).
\<close>

record env =
  now :: int
  closeThrows :: bool
  isPortInUse :: "port \<Rightarrow> bool"
  waitStart :: int
  request :: "port \<Rightarrow> int \<Rightarrow> probe"
  createMcpClient :: "port \<Rightarrow> string + chan"

text \<open>
  The guard \<^verbatim>\<open>assignedClient && assignedPort\<close> followed by \<^verbatim>\<open>instances.get\<close>: a client
  object is truthy, a port number is truthy unless it is 0.
\<close>

definition assignedInstance :: "state \<Rightarrow> (port \<times> chan \<times> worker) option" where
  "assignedInstance s =
     (case assignedClient s of
        None \<Rightarrow> None
      | Some c \<Rightarrow>
          (case assignedPort s of
             None \<Rightarrow> None
           | Some p \<Rightarrow>
               if p = 0 then None
               else (case map_of (instances s) p of
                       None \<Rightarrow> None
                     | Some inst \<Rightarrow> Some (p, c, inst))))"

text \<open>
  The selection loop. \<open>oldestTime\<close> starts at \<^verbatim>\<open>Infinity\<close>, here \<^const>\<open>None\<close>, which every
  timestamp is below.
\<close>

fun below :: "int \<Rightarrow> int option \<Rightarrow> bool" where
  "below t None = True"
| "below t (Some u) = (t < u)"

fun oldestLoop :: "(port \<times> worker) list \<Rightarrow> port option \<Rightarrow> int option \<Rightarrow> port option" where
  "oldestLoop [] oldestPort oldestTime = oldestPort"
| "oldestLoop ((port, inst) # rest) oldestPort oldestTime =
     (if below (lastUsed inst) oldestTime
      then oldestLoop rest (Some port) (Some (lastUsed inst))
      else oldestLoop rest oldestPort oldestTime)"

text \<open>
  The capacity check: at \<^verbatim>\<open>instances.size >= MAX_INSTANCES\<close> the selected port is
  killed; \<^verbatim>\<open>if (oldestPort)\<close> is false for \<^verbatim>\<open>null\<close> and for 0.
\<close>

definition checkCapacity :: "bool \<Rightarrow> state \<Rightarrow> state" where
  "checkCapacity cthrows s =
     (if length (instances s) \<ge> MAX_INSTANCES
      then (case oldestLoop (instances s) None None of
              None \<Rightarrow> s
            | Some oldestPort \<Rightarrow>
                if oldestPort = 0 then s else killInstance cthrows oldestPort s)
      else s)"

text \<open>
  The port scan: the \<^verbatim>\<open>while (attempts < 100)\<close> loop, returning \<open>port\<close> and \<open>attempts\<close>
  as the loop leaves them.
\<close>

function findPort :: "(port \<times> worker) list \<Rightarrow> (port \<Rightarrow> bool) \<Rightarrow> port \<Rightarrow> nat \<Rightarrow> port \<times> nat" where
  "findPort insts inUse port attempts =
     (if attempts < 100
      then (if map_of insts port = None \<and> \<not> inUse port
            then (port, attempts)
            else findPort insts inUse
                   (if port + 1 > BASE_PORT + 100 then BASE_PORT else port + 1)
                   (attempts + 1))
      else (port, attempts))"
  by pat_completeness auto
termination
  by (relation "measure (\<lambda>(insts, inUse, port, attempts). 100 - attempts)") auto

declare findPort.simps [simp del]

text \<open>
  The rest of \<^verbatim>\<open>getOrCreateInstance\<close> after the capacity check: scan for a port, throw
  when the scan used its 100 attempts, advance \<^verbatim>\<open>nextPort\<close>, spawn, wait for the
  server, connect, register the entry and assign it. The handle of the new process is
  the number of processes spawned so far.
\<close>

definition spawnCount :: "event list \<Rightarrow> nat" where
  "spawnCount evs = length (filter (\<lambda>ev. case ev of Spawned _ _ \<Rightarrow> True | _ \<Rightarrow> False) evs)"

definition spawnInstance :: "env \<Rightarrow> state \<Rightarrow> (port \<times> chan) outcome \<times> state" where
  "spawnInstance e s =
     (case findPort (instances s) (isPortInUse e) (nextPort s) 0 of
        (port, attempts) \<Rightarrow>
          if attempts \<ge> 100 then (Throw NoAvailablePorts, s)
          else
            let proc = spawnCount (trace s);
                s1 = s\<lparr>nextPort := port + 1, trace := trace s @ [Spawned port proc]\<rparr>
            in (case waitForServer (request e port) (waitStart e) 45000 of
                  None \<Rightarrow> (Pending, s1)
                | Some TimedOut \<Rightarrow> (Throw (ServerTimeout port), s1)
                | Some Ready \<Rightarrow>
                    (case createMcpClient e port of
                       Inl msg \<Rightarrow> (Throw (ConnectError msg), s1)
                     | Inr c \<Rightarrow>
                         (Return (port, c),
                          s1\<lparr>instances := AList.update port
                                \<lparr>process = proc, client = c, lastUsed = now e,
                                 sessionId = session s1\<rparr> (instances s1),
                             assignedPort := Some port,
                             assignedClient := Some c,
                             trace := trace s1 @ [Registered port c]\<rparr>))))"

definition getOrCreateInstance :: "env \<Rightarrow> state \<Rightarrow> (port \<times> chan) outcome \<times> state" where
  "getOrCreateInstance e s =
     (case assignedInstance s of
        Some (p, c, inst) \<Rightarrow>
          (Return (p, c),
           s\<lparr>instances := AList.update p (inst\<lparr>lastUsed := now e\<rparr>) (instances s)\<rparr>)
      | None \<Rightarrow> spawnInstance e (checkCapacity (closeThrows e) s))"

subsection \<open>proxyToolCall\<close>

text \<open>
  What \<^verbatim>\<open>client.callTool\<close> does: it throws an error with a message, or resolves with
  \<^verbatim>\<open>undefined\<close>, with a value whose \<^verbatim>\<open>content\<close> is falsy (given by its JSON text), or with
  an object with a \<^verbatim>\<open>content\<close> and perhaps an \<^verbatim>\<open>isError\<close> flag.
\<close>

datatype item = TextItem string | OtherItem nat

datatype called =
    Threw string
  | Undefined
  | NoContent string
  | WithContent "item list" "bool option"

record result =
  content :: "item list"
  isError :: "bool option"

text \<open>
  The message of the TypeError that \<^verbatim>\<open>JSON.stringify(undefined).slice\<close> raises inside the
  \<^verbatim>\<open>try\<close> block.
\<close>

definition sliceOfUndefined :: string where
  "sliceOfUndefined = ''Cannot read properties of undefined (reading 'slice')''"

definition normalize :: "called \<Rightarrow> result" where
  "normalize r =
     (case r of
        Threw msg \<Rightarrow> \<lparr>content = [TextItem (''Error: '' @ msg)], isError = Some True\<rparr>
      | Undefined \<Rightarrow>
          \<lparr>content = [TextItem (''Error: '' @ sliceOfUndefined)], isError = Some True\<rparr>
      | NoContent json \<Rightarrow> \<lparr>content = [TextItem json], isError = None\<rparr>
      | WithContent items flag \<Rightarrow> \<lparr>content = items, isError = flag\<rparr>)"

text \<open>
  The \<^verbatim>\<open>lastUsed\<close> update of \<^verbatim>\<open>proxyToolCall\<close>, guarded by
  \<^verbatim>\<open>assignedPort && instances.has(assignedPort)\<close>.
\<close>

definition touch :: "int \<Rightarrow> state \<Rightarrow> state" where
  "touch t s =
     (case assignedPort s of
        None \<Rightarrow> s
      | Some p \<Rightarrow>
          if p = 0 then s
          else (case map_of (instances s) p of
                  None \<Rightarrow> s
                | Some inst \<Rightarrow>
                    s\<lparr>instances := AList.update p (inst\<lparr>lastUsed := t\<rparr>) (instances s)\<rparr>))"

text \<open>
  \<^verbatim>\<open>proxyToolCall\<close>: \<^verbatim>\<open>getOrCreateInstance\<close> is awaited outside the \<^verbatim>\<open>try\<close> block, so
  its failure leaves the function; the forwarded call is inside. \<open>t\<close> is the second
  \<^verbatim>\<open>Date.now()\<close>, \<open>callTool\<close> answers for the channel the call goes to.
\<close>

definition proxyToolCall :: "env \<Rightarrow> int \<Rightarrow> (chan \<Rightarrow> called) \<Rightarrow> state \<Rightarrow> result outcome \<times> state" where
  "proxyToolCall e t callTool s =
     (case getOrCreateInstance e s of
        (Throw err, s1) \<Rightarrow> (Throw err, s1)
      | (Pending, s1) \<Rightarrow> (Pending, s1)
      | (Return (p, c), s1) \<Rightarrow> (Return (normalize (callTool c)), touch t s1))"

subsection \<open>The cleanup timer\<close>

text \<open>
  \<^verbatim>\<open>killInstance\<close> is an \<^verbatim>\<open>async\<close> function. A caller that does not await it, as the
  cleanup timer does, gets control back when the call reaches
  \<^verbatim>\<open>await instance.client.close()\<close>: by then the call has looked the entry up and has
  called \<^verbatim>\<open>close\<close>. The rest, \<^verbatim>\<open>instance.process.kill()\<close> and \<^verbatim>\<open>instances.delete(port)\<close>
  with the port and the entry the call holds, runs when \<^verbatim>\<open>close\<close> has settled.
  \<open>killInstanceBegin\<close> is the first half, returning what the suspended call holds (nothing
  when the map has no entry, and then there is no second half); \<open>killInstanceResume\<close> is
  the second half. The close event is recorded where \<^verbatim>\<open>close\<close> is called, with the
  outcome it will have; \<open>cthrows\<close> says whether \<^verbatim>\<open>close\<close> throws.
\<close>

type_synonym pending = "port \<times> worker"

definition killInstanceBegin :: "bool \<Rightarrow> port \<Rightarrow> state \<Rightarrow> state \<times> pending option" where
  "killInstanceBegin cthrows port s =
     (case map_of (instances s) port of
        None \<Rightarrow> (s, None)
      | Some inst \<Rightarrow>
          (s\<lparr>trace := trace s @
              [if cthrows then CloseFailed (client inst) else Closed (client inst)]\<rparr>,
           Some (port, inst)))"

definition killInstanceResume :: "pending \<Rightarrow> state \<Rightarrow> state" where
  "killInstanceResume k s =
     s\<lparr>instances := AList.delete (fst k) (instances s),
       trace := trace s @ [Killed (process (snd k))]\<rparr>"

text \<open>
  The \<^verbatim>\<open>setInterval\<close> callback, run at time \<open>t\<close> (its \<^verbatim>\<open>Date.now()\<close>): for every entry
  of the map, in order, when \<^verbatim>\<open>now - inst.lastUsed > INSTANCE_TIMEOUT_MS\<close> it calls
  \<^verbatim>\<open>killInstance(port)\<close> and does not await it. No entry is deleted while the loop runs,
  so the loop goes over the map as it is when the callback starts. The callback returns
  the state it leaves and the suspended calls, in the order they were made. \<open>cthrows\<close>
  says for which ports \<^verbatim>\<open>close\<close> throws.
\<close>

fun cleanupLoop ::
  "(port \<Rightarrow> bool) \<Rightarrow> int \<Rightarrow> (port \<times> worker) list \<Rightarrow> state \<times> pending list \<Rightarrow> state \<times> pending list"
where
  "cleanupLoop cthrows t [] (s, ks) = (s, ks)"
| "cleanupLoop cthrows t ((port, inst) # rest) (s, ks) =
     cleanupLoop cthrows t rest
       (if t - lastUsed inst > INSTANCE_TIMEOUT_MS
        then (case killInstanceBegin (cthrows port) port s of
                (s1, None) \<Rightarrow> (s1, ks)
              | (s1, Some k) \<Rightarrow> (s1, ks @ [k]))
        else (s, ks))"

definition cleanupTick :: "(port \<Rightarrow> bool) \<Rightarrow> int \<Rightarrow> state \<Rightarrow> state \<times> pending list" where
  "cleanupTick cthrows t s = cleanupLoop cthrows t (instances s) (s, [])"

text \<open>
  The suspended calls resume after the callback has returned, each when its \<^verbatim>\<open>close\<close>
  has settled: \<open>resumeAll ks\<close> runs the second halves in the order \<open>ks\<close>, which is for the
  environment to choose.
\<close>

fun resumeAll :: "pending list \<Rightarrow> state \<Rightarrow> state" where
  "resumeAll [] s = s"
| "resumeAll (k # ks) s = resumeAll ks (killInstanceResume k s)"

text \<open>
  The period of the timer, the second argument of \<^verbatim>\<open>setInterval\<close>, and the time at which
  the callback is due for the \<open>k\<close>-th time (counting from 0) when the timer was set at
  time \<open>start\<close>.
\<close>

definition CLEANUP_INTERVAL_MS :: int where
  "CLEANUP_INTERVAL_MS = 60000"

definition tickDue :: "int \<Rightarrow> nat \<Rightarrow> int" where
  "tickDue start k = start + CLEANUP_INTERVAL_MS * (int k + 1)"

subsection \<open>Well-formed states\<close>

text \<open>
  What holds of every state the manager reaches when its operations run one after the
  other: the keys of the map are distinct (it is a map) and are ports the scan can hand
  out, at least \<^const>\<open>BASE_PORT\<close>; the map holds at most \<^const>\<open>MAX_INSTANCES\<close> entries; the
  cursor is at least \<^const>\<open>BASE_PORT\<close>; the two halves of the assignment are set and
  cleared together, and an entry under the assigned port holds the assigned channel.
\<close>

definition wf :: "state \<Rightarrow> bool" where
  "wf s \<longleftrightarrow>
     distinct (map fst (instances s)) \<and>
     list_all (\<lambda>(p, inst). BASE_PORT \<le> p) (instances s) \<and>
     length (instances s) \<le> MAX_INSTANCES \<and>
     BASE_PORT \<le> nextPort s \<and>
     (case assignedPort s of
        None \<Rightarrow> assignedClient s = None
      | Some p \<Rightarrow>
          BASE_PORT \<le> p \<and>
          (case assignedClient s of
             None \<Rightarrow> False
           | Some c \<Rightarrow>
               (case map_of (instances s) p of
                  None \<Rightarrow> True
                | Some inst \<Rightarrow> client inst = c)))"

text \<open>
  \<open>firstMin pre w post\<close>: in the map \<open>pre @ (p, w) # post\<close> the entry \<open>w\<close> has the least
  \<^verbatim>\<open>lastUsed\<close>, and every entry before it has a strictly greater one.
\<close>

definition firstMin :: "(port \<times> worker) list \<Rightarrow> worker \<Rightarrow> (port \<times> worker) list \<Rightarrow> bool" where
  "firstMin pre w post \<longleftrightarrow>
     (\<forall>x \<in> set pre. lastUsed w < lastUsed (snd x)) \<and>
     (\<forall>x \<in> set post. lastUsed w \<le> lastUsed (snd x))"

text \<open>
  An entry is idle at time \<open>t\<close> when the test of the cleanup timer holds of it;
  \<open>closeEvent\<close> and \<open>killEvent\<close> are the events of the two halves of killing an entry.
\<close>

definition idle :: "int \<Rightarrow> port \<times> worker \<Rightarrow> bool" where
  "idle t x \<longleftrightarrow> t - lastUsed (snd x) > INSTANCE_TIMEOUT_MS"

definition closeEvent :: "(port \<Rightarrow> bool) \<Rightarrow> port \<times> worker \<Rightarrow> event" where
  "closeEvent cthrows x =
     (if cthrows (fst x) then CloseFailed (client (snd x)) else Closed (client (snd x)))"

definition killEvent :: "port \<times> worker \<Rightarrow> event" where
  "killEvent x = Killed (process (snd x))"

subsection \<open>Example states\<close>

definition mkWorker :: "nat \<Rightarrow> int \<Rightarrow> worker" where
  "mkWorker n t = \<lparr>process = n, client = n + 100, lastUsed = t, sessionId = ''session-a''\<rparr>"

text \<open>A full pool; ports 9001 and 9003 share the least \<^verbatim>\<open>lastUsed\<close>. The assignment is stale.\<close>

definition fullPool :: state where
  "fullPool = \<lparr>instances =
       [(9000, mkWorker 0 50), (9001, mkWorker 1 20), (9002, mkWorker 2 70),
        (9003, mkWorker 3 20), (9004, mkWorker 4 90), (9005, mkWorker 5 30),
        (9006, mkWorker 6 60), (9007, mkWorker 7 80), (9008, mkWorker 8 40),
        (9009, mkWorker 9 100)],
     nextPort = 9011, assignedPort = Some 9010, assignedClient = Some 110,
     session = ''session-a'', trace = []\<rparr>"

text \<open>A pool of two; the session is assigned the worker on port 9001.\<close>

definition smallPool :: state where
  "smallPool = \<lparr>instances = [(9000, mkWorker 4 50), (9001, mkWorker 5 20)],
     nextPort = 9002, assignedPort = Some 9001, assignedClient = Some 105,
     session = ''session-a'', trace = []\<rparr>"

text \<open>An environment where every port is free and the server answers its first probe.\<close>

definition readyEnv :: env where
  "readyEnv = \<lparr>now = 1000, closeThrows = False, isPortInUse = (\<lambda>p. False), waitStart = 500,
     request = (\<lambda>p t. Response 10 200), createMcpClient = (\<lambda>p. Inr 7)\<rparr>"

text \<open>An environment where every port is free and every health probe fails after 5 ms.\<close>

definition deadEnv :: env where
  "deadEnv = \<lparr>now = 1000, closeThrows = False, isPortInUse = (\<lambda>p. False), waitStart = 500,
     request = (\<lambda>p t. Failure 5), createMcpClient = (\<lambda>p. Inr 7)\<rparr>"

text \<open>A pool of one whose assignment is stale: the worker on port 9001 was killed.\<close>

definition stalePool :: state where
  "stalePool = \<lparr>instances = [(9000, mkWorker 4 50)],
     nextPort = 9002, assignedPort = Some 9001, assignedClient = Some 105,
     session = ''session-a'', trace = [Closed 105, Killed 5]\<rparr>"

text \<open>
  An environment where every port is taken, and one where the handshake with the new
  worker fails.
\<close>

definition crowdedEnv :: env where
  "crowdedEnv = \<lparr>now = 1000, closeThrows = False, isPortInUse = (\<lambda>p. True), waitStart = 500,
     request = (\<lambda>p t. Response 10 200), createMcpClient = (\<lambda>p. Inr 7)\<rparr>"

definition refusingEnv :: env where
  "refusingEnv = \<lparr>now = 1000, closeThrows = False, isPortInUse = (\<lambda>p. False), waitStart = 500,
     request = (\<lambda>p t. Response 10 200), createMcpClient = (\<lambda>p. Inl ''SSE error'')\<rparr>"

text \<open>A forwarded call that throws, and one where the worker reports an error.\<close>

definition brokenCall :: "chan \<Rightarrow> called" where
  "brokenCall c = Threw ''SSE stream closed''"

definition remoteError :: "chan \<Rightarrow> called" where
  "remoteError c = WithContent [TextItem ''Timeout 5000ms exceeded''] (Some True)"

text \<open>
  Four workers, last used at 0, at 2 minutes, at 1 minute and at 30 seconds: at 31
  minutes they have been idle for 31, 29, 30 and 30.5 minutes.
\<close>

definition idlePool :: state where
  "idlePool = \<lparr>instances =
       [(9000, mkWorker 4 0), (9001, mkWorker 5 120000), (9002, mkWorker 6 60000),
        (9003, mkWorker 7 30000)],
     nextPort = 9004, assignedPort = Some 9001, assignedClient = Some 105,
     session = ''session-a'', trace = []\<rparr>"

text \<open>
  An environment where other processes hold every port below 9100, and three calls from
  the initial state: the first worker exits, the second call finds only port 9100 free,
  that worker exits too, and a third call follows.
\<close>

definition busyEnv :: env where
  "busyEnv = \<lparr>now = 5000, closeThrows = False, isPortInUse = (\<lambda>p. p < 9100), waitStart = 4000,
     request = (\<lambda>p t. Response 10 200), createMcpClient = (\<lambda>p. Inr 8)\<rparr>"

definition run1 :: "(port \<times> chan) outcome \<times> state" where
  "run1 = getOrCreateInstance readyEnv (init ''session-a'')"

definition run2 :: "(port \<times> chan) outcome \<times> state" where
  "run2 = getOrCreateInstance busyEnv (onExit 9000 (snd run1))"

definition run3 :: "(port \<times> chan) outcome \<times> state" where
  "run3 = getOrCreateInstance readyEnv (onExit 9100 (snd run2))"

text \<open>
  A server that refuses connections (each probe fails after 2 ms) until it comes up
  45.05 s after the start of the wait, and a server that never comes up.
\<close>

definition lateServer :: "int \<Rightarrow> probe" where
  "lateServer t = (if t < 45050 then Failure 2 else Response 3 503)"

definition deadServer :: "int \<Rightarrow> probe" where
  "deadServer t = Failure 5"

section \<open>Properties\<close>

subsection \<open>Association lists\<close>

lemma map_of_delete_same: "map_of (AList.delete k al) k = None"
  by (simp add: delete_conv')

lemma map_of_middle:
  "distinct (map fst (pre @ (p, w) # post)) \<Longrightarrow> map_of (pre @ (p, w) # post) p = Some w"
  by (subst map_of_eq_Some_iff) auto

lemma delete_middle:
  "distinct (map fst (pre @ (p, v) # post)) \<Longrightarrow> AList.delete p (pre @ (p, v) # post) = pre @ post"
  by (induction pre) (auto simp: AList.delete_eq filter_id_conv rev_image_eqI)

subsection \<open>killInstance\<close>

lemma killInstance_absent:
  "map_of (instances s) port = None \<Longrightarrow> killInstance b port s = s"
  by (simp add: killInstance_def)

lemma killInstance_present:
  "map_of (instances s) port = Some w \<Longrightarrow>
   killInstance b port s =
     s\<lparr>instances := AList.delete port (instances s),
       trace := trace s @ [if b then CloseFailed (client w) else Closed (client w),
                           Killed (process w)]\<rparr>"
  by (simp add: killInstance_def)

lemma instances_killInstance:
  "instances (killInstance b port s) = AList.delete port (instances s)"
  by (auto simp: killInstance_def map_of_eq_None_iff split: option.splits)

lemma killInstance_twice:
  "killInstance b2 port (killInstance b1 port s) = killInstance b1 port s"
  by (rule killInstance_absent) (simp add: instances_killInstance map_of_delete_same)

text \<open>
  Claim C8. Killing is idempotent. When the map has no entry for the port (the worker
  was killed already, or never existed), \<^const>\<open>killInstance\<close> changes nothing, so a second
  kill of a port leaves the state of the first. When the map has an entry, the channel
  is closed, the process is killed and the entry is deleted, also when \<^verbatim>\<open>close\<close> throws:
  the process kill and the deletion are the same in both cases, only the close event
  differs.
\<close>

theorem killInstance_idempotent:
  "(map_of (instances s) port = None \<longrightarrow> killInstance b port s = s) \<and>
   killInstance b2 port (killInstance b port s) = killInstance b port s \<and>
   (map_of (instances s) port = Some w \<longrightarrow>
      instances (killInstance b port s) = AList.delete port (instances s) \<and>
      map_of (instances (killInstance b port s)) port = None \<and>
      trace (killInstance b port s) =
        trace s @ [if b then CloseFailed (client w) else Closed (client w), Killed (process w)])"
proof (intro conjI impI)
  assume "map_of (instances s) port = None"
  then show "killInstance b port s = s" by (rule killInstance_absent)
next
  show "killInstance b2 port (killInstance b port s) = killInstance b port s"
    by (rule killInstance_twice)
next
  assume w: "map_of (instances s) port = Some w"
  show "instances (killInstance b port s) = AList.delete port (instances s)"
    by (rule instances_killInstance)
  show "map_of (instances (killInstance b port s)) port = None"
    by (simp add: instances_killInstance map_of_delete_same)
  show "trace (killInstance b port s) =
        trace s @ [if b then CloseFailed (client w) else Closed (client w), Killed (process w)]"
    by (simp add: killInstance_present[OF w])
qed

theorem killInstance_idempotent_witness:
  "map_of (instances smallPool) 9001 = Some (mkWorker 5 20) \<and>
   map_of (instances smallPool) 9005 = None \<and>
   killInstance True 9005 smallPool = smallPool \<and>
   killInstance False 9001 (killInstance True 9001 smallPool) = killInstance True 9001 smallPool \<and>
   instances (killInstance True 9001 smallPool) = [(9000, mkWorker 4 50)] \<and>
   trace (killInstance True 9001 smallPool) = [CloseFailed 105, Killed 5]"
proof -
  have a: "map_of (instances smallPool) 9001 = Some (mkWorker 5 20)"
    by (simp add: smallPool_def)
  have b: "map_of (instances smallPool) 9005 = None"
    by (simp add: smallPool_def)
  have c: "AList.delete 9001 (instances smallPool) = [(9000, mkWorker 4 50)]"
    by (simp add: smallPool_def)
  from killInstance_idempotent[of smallPool 9005 True False "mkWorker 5 20"] b
  have 1: "killInstance True 9005 smallPool = smallPool" by blast
  from killInstance_idempotent[of smallPool 9001 True False "mkWorker 5 20"] a c
  have 2: "killInstance False 9001 (killInstance True 9001 smallPool) = killInstance True 9001 smallPool"
    and 3: "instances (killInstance True 9001 smallPool) = [(9000, mkWorker 4 50)]"
    and 4: "trace (killInstance True 9001 smallPool) =
              trace smallPool @ [CloseFailed (client (mkWorker 5 20)), Killed (process (mkWorker 5 20))]"
    by simp_all
  have 5: "trace (killInstance True 9001 smallPool) = [CloseFailed 105, Killed 5]"
    using 4 by (simp add: smallPool_def mkWorker_def)
  show ?thesis using a b 1 2 3 5 by simp
qed

subsection \<open>The selection loop and the capacity check\<close>

lemma firstMin_Nil: "(\<forall>x \<in> set post. lastUsed w \<le> lastUsed (snd x)) \<Longrightarrow> firstMin [] w post"
  by (simp add: firstMin_def)

lemma firstMin_Cons:
  "firstMin pre w post \<Longrightarrow> lastUsed w < lastUsed (snd x) \<Longrightarrow> firstMin (x # pre) w post"
  by (simp add: firstMin_def)

lemma below_trans: "below a (Some b) \<Longrightarrow> below b ot \<Longrightarrow> below a ot"
  by (cases ot) auto

lemma not_below_lt: "\<not> below b ot \<Longrightarrow> below a ot \<Longrightarrow> a < b"
  by (cases ot) auto

text \<open>
  The loop with any accumulator: either no entry is below the accumulated time and the
  accumulated port comes back, or the result is the first entry with the least time,
  which is below the accumulated time.
\<close>

lemma oldestLoop_acc:
  "(oldestLoop xs oldestPort ot = oldestPort \<and> (\<forall>x \<in> set xs. \<not> below (lastUsed (snd x)) ot)) \<or>
   (\<exists>pre p w post. xs = pre @ (p, w) # post \<and> oldestLoop xs oldestPort ot = Some p \<and>
      below (lastUsed w) ot \<and> firstMin pre w post)"
proof (induction xs arbitrary: oldestPort ot)
  case Nil
  show ?case by simp
next
  case (Cons a rest)
  obtain port inst where a: "a = (port, inst)" by (cases a)
  show ?case
  proof (cases "below (lastUsed inst) ot")
    case True
    have eq: "oldestLoop (a # rest) oldestPort ot = oldestLoop rest (Some port) (Some (lastUsed inst))"
      using True a by simp
    from Cons.IH[of "Some port" "Some (lastUsed inst)"] show ?thesis
    proof (elim disjE conjE exE)
      assume r: "oldestLoop rest (Some port) (Some (lastUsed inst)) = Some port"
        and n: "\<forall>x \<in> set rest. \<not> below (lastUsed (snd x)) (Some (lastUsed inst))"
      have fm: "firstMin [] inst rest" using n by (intro firstMin_Nil) auto
      have "a # rest = [] @ (port, inst) # rest" using a by simp
      with eq r True fm show ?thesis by metis
    next
      fix pre p w post
      assume h: "rest = pre @ (p, w) # post"
        "oldestLoop rest (Some port) (Some (lastUsed inst)) = Some p"
        "below (lastUsed w) (Some (lastUsed inst))" "firstMin pre w post"
      have b: "below (lastUsed w) ot" using h(3) True by (rule below_trans)
      have fm: "firstMin (a # pre) w post" using h(3,4) a by (intro firstMin_Cons) auto
      have "a # rest = (a # pre) @ (p, w) # post" using h(1) by simp
      with eq h(2) b fm show ?thesis by metis
    qed
  next
    case False
    have eq: "oldestLoop (a # rest) oldestPort ot = oldestLoop rest oldestPort ot"
      using False a by simp
    from Cons.IH[of oldestPort ot] show ?thesis
    proof (elim disjE conjE exE)
      assume "oldestLoop rest oldestPort ot = oldestPort"
        and "\<forall>x \<in> set rest. \<not> below (lastUsed (snd x)) ot"
      then show ?thesis using eq False a by simp
    next
      fix pre p w post
      assume h: "rest = pre @ (p, w) # post" "oldestLoop rest oldestPort ot = Some p"
        "below (lastUsed w) ot" "firstMin pre w post"
      have lt: "lastUsed w < lastUsed inst" using False h(3) by (rule not_below_lt)
      have fm: "firstMin (a # pre) w post" using h(4) lt a by (intro firstMin_Cons) auto
      have "a # rest = (a # pre) @ (p, w) # post" using h(1) by simp
      with eq h(2,3) fm show ?thesis by metis
    qed
  qed
qed

lemma oldestLoop_first_min:
  assumes "xs \<noteq> []"
  shows "\<exists>pre p w post. xs = pre @ (p, w) # post \<and> oldestLoop xs None None = Some p \<and>
           firstMin pre w post"
proof -
  from oldestLoop_acc[of xs None None] show ?thesis
  proof (elim disjE conjE exE)
    assume "\<forall>x \<in> set xs. \<not> below (lastUsed (snd x)) None"
    with assms show ?thesis by (cases xs) auto
  next
    fix pre p w post
    assume "xs = pre @ (p, w) # post" "oldestLoop xs None None = Some p" "firstMin pre w post"
    then show ?thesis by blast
  qed
qed

lemma wf_distinct: "wf s \<Longrightarrow> distinct (map fst (instances s))"
  by (simp add: wf_def)

lemma wf_port_ge: "wf s \<Longrightarrow> (p, w) \<in> set (instances s) \<Longrightarrow> BASE_PORT \<le> p"
  by (auto simp: wf_def list_all_iff)

lemma wf_length: "wf s \<Longrightarrow> length (instances s) \<le> MAX_INSTANCES"
  by (simp add: wf_def)

lemma checkCapacity_below:
  "length (instances s) < MAX_INSTANCES \<Longrightarrow> checkCapacity b s = s"
  by (simp add: checkCapacity_def)

lemma checkCapacity_full:
  assumes wf: "wf s" and full: "MAX_INSTANCES \<le> length (instances s)"
  shows "\<exists>pre p w post. instances s = pre @ (p, w) # post \<and> firstMin pre w post \<and>
           checkCapacity b s =
             s\<lparr>instances := pre @ post,
               trace := trace s @ [if b then CloseFailed (client w) else Closed (client w),
                                   Killed (process w)]\<rparr>"
proof -
  have ne: "instances s \<noteq> []" using full by (auto simp: MAX_INSTANCES_def)
  from oldestLoop_first_min[OF ne] obtain pre p w post where
    sp: "instances s = pre @ (p, w) # post" and
    ol: "oldestLoop (instances s) None None = Some p" and
    fm: "firstMin pre w post" by blast
  have d: "distinct (map fst (pre @ (p, w) # post))" using wf_distinct[OF wf] sp by simp
  have "(p, w) \<in> set (instances s)" using sp by simp
  then have "BASE_PORT \<le> p" using wf by (rule wf_port_ge[rotated])
  then have p0: "p \<noteq> 0" by (simp add: BASE_PORT_def)
  have look: "map_of (instances s) p = Some w" using map_of_middle[OF d] sp by simp
  have del: "AList.delete p (instances s) = pre @ post" using delete_middle[OF d] sp by simp
  have "checkCapacity b s = killInstance b p s"
    using full ol p0 by (simp add: checkCapacity_def)
  also have "\<dots> = s\<lparr>instances := pre @ post,
               trace := trace s @ [if b then CloseFailed (client w) else Closed (client w),
                                   Killed (process w)]\<rparr>"
    using killInstance_present[OF look, of b] del by simp
  finally show ?thesis using sp fm by blast
qed

lemma wf_fullPool: "wf fullPool"
  by (simp add: wf_def fullPool_def BASE_PORT_def MAX_INSTANCES_def)

lemma wf_smallPool: "wf smallPool"
  by (simp add: wf_def smallPool_def BASE_PORT_def MAX_INSTANCES_def mkWorker_def)

text \<open>
  Claim C9. The tie-break of the eviction. In a well-formed state whose pool is full,
  the capacity check kills the entry that comes first in the map's insertion order among
  those with the least \<^verbatim>\<open>lastUsed\<close>: every entry inserted before the victim has a strictly
  greater \<^verbatim>\<open>lastUsed\<close>, every entry inserted after it has one at least as great, and the
  other entries keep their order.
\<close>

theorem eviction_takes_first_of_ties:
  assumes "wf s" and "MAX_INSTANCES \<le> length (instances s)"
  shows "\<exists>pre p w post.
           instances s = pre @ (p, w) # post \<and>
           (\<forall>x \<in> set pre. lastUsed w < lastUsed (snd x)) \<and>
           (\<forall>x \<in> set post. lastUsed w \<le> lastUsed (snd x)) \<and>
           oldestLoop (instances s) None None = Some p \<and>
           instances (checkCapacity b s) = pre @ post \<and>
           trace (checkCapacity b s) =
             trace s @ [if b then CloseFailed (client w) else Closed (client w), Killed (process w)]"
proof -
  have ne: "instances s \<noteq> []" using assms(2) by (auto simp: MAX_INSTANCES_def)
  from oldestLoop_first_min[OF ne] obtain pre p w post where
    sp: "instances s = pre @ (p, w) # post" and
    ol: "oldestLoop (instances s) None None = Some p" and
    fm: "firstMin pre w post" by blast
  have d: "distinct (map fst (pre @ (p, w) # post))" using wf_distinct[OF assms(1)] sp by simp
  have "(p, w) \<in> set (instances s)" using sp by simp
  then have "BASE_PORT \<le> p" using assms(1) by (rule wf_port_ge[rotated])
  then have p0: "p \<noteq> 0" by (simp add: BASE_PORT_def)
  have look: "map_of (instances s) p = Some w" using map_of_middle[OF d] sp by simp
  have del: "AList.delete p (instances s) = pre @ post" using delete_middle[OF d] sp by simp
  have cc: "checkCapacity b s = killInstance b p s"
    using assms(2) ol p0 by (simp add: checkCapacity_def)
  have i: "instances (checkCapacity b s) = pre @ post"
    using cc del by (simp add: instances_killInstance)
  have t: "trace (checkCapacity b s) =
             trace s @ [if b then CloseFailed (client w) else Closed (client w), Killed (process w)]"
    using cc by (simp add: killInstance_present[OF look])
  from fm have "(\<forall>x \<in> set pre. lastUsed w < lastUsed (snd x)) \<and>
      (\<forall>x \<in> set post. lastUsed w \<le> lastUsed (snd x))" by (simp add: firstMin_def)
  with sp ol i t show ?thesis by blast
qed

theorem eviction_takes_first_of_ties_witness:
  "wf fullPool \<and> MAX_INSTANCES \<le> length (instances fullPool) \<and>
   lastUsed (mkWorker 1 20) = lastUsed (mkWorker 3 20) \<and>
   (\<exists>pre p w post.
      instances fullPool = pre @ (p, w) # post \<and>
      (\<forall>x \<in> set pre. lastUsed w < lastUsed (snd x)) \<and>
      (\<forall>x \<in> set post. lastUsed w \<le> lastUsed (snd x)) \<and>
      oldestLoop (instances fullPool) None None = Some p \<and>
      instances (checkCapacity False fullPool) = pre @ post \<and>
      trace (checkCapacity False fullPool) =
        trace fullPool @ [if False then CloseFailed (client w) else Closed (client w), Killed (process w)]) \<and>
   map fst (instances (checkCapacity False fullPool)) =
     [9000, 9002, 9003, 9004, 9005, 9006, 9007, 9008, 9009]"
proof -
  have 1: "wf fullPool" by (rule wf_fullPool)
  have 2: "MAX_INSTANCES \<le> length (instances fullPool)"
    by (simp add: fullPool_def MAX_INSTANCES_def)
  have 3: "lastUsed (mkWorker 1 20) = lastUsed (mkWorker 3 20)" by (simp add: mkWorker_def)
  have 4: "map fst (instances (checkCapacity False fullPool)) =
     [9000, 9002, 9003, 9004, 9005, 9006, 9007, 9008, 9009]"
    by (simp add: checkCapacity_def fullPool_def MAX_INSTANCES_def mkWorker_def killInstance_def)
  from eviction_takes_first_of_ties[OF 1 2, of False] 1 2 3 4 show ?thesis by blast
qed

subsection \<open>The port scan and the spawn\<close>

lemma update_absent: "map_of xs k = None \<Longrightarrow> AList.update k v xs = xs @ [(k, v)]"
  by (induction xs) (auto split: if_splits)

lemma findPort_ge:
  "BASE_PORT \<le> port \<Longrightarrow> findPort insts inUse port a0 = (p, a) \<Longrightarrow> BASE_PORT \<le> p"
proof (induction insts inUse port a0 rule: findPort.induct)
  case (1 insts inUse port attempts)
  then show ?case
    by (subst (asm) (2) findPort.simps) (auto split: if_splits)
qed

lemma findPort_free:
  "findPort insts inUse port a0 = (p, a) \<Longrightarrow> a < 100 \<Longrightarrow> map_of insts p = None \<and> \<not> inUse p"
proof (induction insts inUse port a0 rule: findPort.induct)
  case (1 insts inUse port attempts)
  then show ?case
    by (subst (asm) (2) findPort.simps) (auto split: if_splits)
qed

lemma spawnInstance_exhausted:
  "findPort (instances s) (isPortInUse e) (nextPort s) 0 = (p, a) \<Longrightarrow> 100 \<le> a \<Longrightarrow>
   spawnInstance e s = (Throw NoAvailablePorts, s)"
  by (simp add: spawnInstance_def)

lemma spawnInstance_timeout:
  "findPort (instances s) (isPortInUse e) (nextPort s) 0 = (p, a) \<Longrightarrow> a < 100 \<Longrightarrow>
   waitForServer (request e p) (waitStart e) 45000 = Some TimedOut \<Longrightarrow>
   spawnInstance e s =
     (Throw (ServerTimeout p),
      s\<lparr>nextPort := p + 1, trace := trace s @ [Spawned p (spawnCount (trace s))]\<rparr>)"
  by (simp add: spawnInstance_def Let_def)

lemma spawnInstance_pending:
  "findPort (instances s) (isPortInUse e) (nextPort s) 0 = (p, a) \<Longrightarrow> a < 100 \<Longrightarrow>
   waitForServer (request e p) (waitStart e) 45000 = None \<Longrightarrow>
   spawnInstance e s =
     (Pending, s\<lparr>nextPort := p + 1, trace := trace s @ [Spawned p (spawnCount (trace s))]\<rparr>)"
  by (simp add: spawnInstance_def Let_def)

lemma spawnInstance_connect_error:
  "findPort (instances s) (isPortInUse e) (nextPort s) 0 = (p, a) \<Longrightarrow> a < 100 \<Longrightarrow>
   waitForServer (request e p) (waitStart e) 45000 = Some Ready \<Longrightarrow>
   createMcpClient e p = Inl msg \<Longrightarrow>
   spawnInstance e s =
     (Throw (ConnectError msg),
      s\<lparr>nextPort := p + 1, trace := trace s @ [Spawned p (spawnCount (trace s))]\<rparr>)"
  by (simp add: spawnInstance_def Let_def)

lemma spawnInstance_success:
  "findPort (instances s) (isPortInUse e) (nextPort s) 0 = (p, a) \<Longrightarrow> a < 100 \<Longrightarrow>
   waitForServer (request e p) (waitStart e) 45000 = Some Ready \<Longrightarrow>
   createMcpClient e p = Inr c \<Longrightarrow>
   spawnInstance e s =
     (Return (p, c),
      s\<lparr>instances := instances s @
           [(p, \<lparr>process = spawnCount (trace s), client = c, lastUsed = now e,
                 sessionId = session s\<rparr>)],
        nextPort := p + 1, assignedPort := Some p, assignedClient := Some c,
        trace := trace s @ [Spawned p (spawnCount (trace s)), Registered p c]\<rparr>)"
  using findPort_free[of "instances s" "isPortInUse e" "nextPort s" 0 p a]
  by (simp add: spawnInstance_def Let_def update_absent)

lemma spawnInstance_Return:
  assumes "spawnInstance e s = (Return (p, c), s')"
  shows "map_of (instances s) p = None \<and> \<not> isPortInUse e p \<and> createMcpClient e p = Inr c \<and>
     waitForServer (request e p) (waitStart e) 45000 = Some Ready \<and>
     (\<exists>a < 100. findPort (instances s) (isPortInUse e) (nextPort s) 0 = (p, a)) \<and>
     s' = s\<lparr>instances := instances s @
           [(p, \<lparr>process = spawnCount (trace s), client = c, lastUsed = now e,
                 sessionId = session s\<rparr>)],
        nextPort := p + 1, assignedPort := Some p, assignedClient := Some c,
        trace := trace s @ [Spawned p (spawnCount (trace s)), Registered p c]\<rparr>"
proof -
  obtain q a where fp: "findPort (instances s) (isPortInUse e) (nextPort s) 0 = (q, a)"
    by (cases "findPort (instances s) (isPortInUse e) (nextPort s) 0")
  have a: "a < 100"
  proof (rule ccontr)
    assume "\<not> a < 100"
    then have "spawnInstance e s = (Throw NoAvailablePorts, s)"
      using spawnInstance_exhausted[OF fp] by simp
    with assms show False by simp
  qed
  have fr: "map_of (instances s) q = None \<and> \<not> isPortInUse e q" using findPort_free[OF fp a] .
  show ?thesis
  proof (cases "waitForServer (request e q) (waitStart e) 45000")
    case None
    from spawnInstance_pending[OF fp a None] assms show ?thesis by simp
  next
    case (Some r)
    show ?thesis
    proof (cases r)
      case TimedOut
      from spawnInstance_timeout[OF fp a] Some TimedOut assms show ?thesis by simp
    next
      case Ready
      show ?thesis
      proof (cases "createMcpClient e q")
        case (Inl msg)
        from spawnInstance_connect_error[OF fp a _ Inl] Some Ready assms show ?thesis by simp
      next
        case (Inr c')
        have w: "waitForServer (request e q) (waitStart e) 45000 = Some Ready"
          using Some Ready by simp
        from spawnInstance_success[OF fp a w Inr] assms
        have "q = p" "c' = c" and s': "s' = s\<lparr>instances := instances s @
           [(q, \<lparr>process = spawnCount (trace s), client = c', lastUsed = now e,
                 sessionId = session s\<rparr>)],
          nextPort := q + 1, assignedPort := Some q, assignedClient := Some c',
          trace := trace s @ [Spawned q (spawnCount (trace s)), Registered q c']\<rparr>"
          by simp_all
        with fr w Inr fp a show ?thesis by blast
      qed
    qed
  qed
qed

lemma spawnInstance_no_Return:
  assumes "spawnInstance e s = (r, s')" and "\<And>w. r \<noteq> Return w"
  shows "instances s' = instances s \<and> assignedPort s' = assignedPort s \<and>
         assignedClient s' = assignedClient s \<and> session s' = session s"
proof -
  obtain q a where fp: "findPort (instances s) (isPortInUse e) (nextPort s) 0 = (q, a)"
    by (cases "findPort (instances s) (isPortInUse e) (nextPort s) 0")
  show ?thesis
  proof (cases "a < 100")
    case False
    then show ?thesis using spawnInstance_exhausted[OF fp] assms(1) by auto
  next
    case a: True
    show ?thesis
    proof (cases "waitForServer (request e q) (waitStart e) 45000")
      case None
      from spawnInstance_pending[OF fp a None] assms(1) show ?thesis by auto
    next
      case (Some rd)
      show ?thesis
      proof (cases rd)
        case TimedOut
        from spawnInstance_timeout[OF fp a] Some TimedOut assms(1) show ?thesis by auto
      next
        case Ready
        show ?thesis
        proof (cases "createMcpClient e q")
          case (Inl msg)
          from spawnInstance_connect_error[OF fp a _ Inl] Some Ready assms(1) show ?thesis by auto
        next
          case (Inr c')
          from spawnInstance_success[OF fp a _ Inr] Some Ready assms show ?thesis by auto
        qed
      qed
    qed
  qed
qed

subsection \<open>Well-formed states are preserved\<close>

text \<open>
  The initial state is well-formed and every operation keeps a state well-formed, so the
  states the manager reaches by running its operations one after the other are
  well-formed.
\<close>

lemma wf_alt:
  "wf s \<longleftrightarrow>
     distinct (map fst (instances s)) \<and>
     (\<forall>p \<in> fst ` set (instances s). BASE_PORT \<le> p) \<and>
     length (instances s) \<le> MAX_INSTANCES \<and>
     BASE_PORT \<le> nextPort s \<and>
     (assignedPort s = None \<longleftrightarrow> assignedClient s = None) \<and>
     (\<forall>p. assignedPort s = Some p \<longrightarrow> BASE_PORT \<le> p) \<and>
     (\<forall>p w. assignedPort s = Some p \<longrightarrow> map_of (instances s) p = Some w \<longrightarrow>
        assignedClient s = Some (client w))"
  unfolding wf_def list_all_iff
  by (cases "assignedPort s"; cases "assignedClient s")
     (auto simp del: map_of_eq_Some_iff split: option.splits)

lemma wf_init: "wf (init sid)"
  by (simp add: wf_def init_def BASE_PORT_def)

lemma wf_delete:
  assumes "wf s"
  shows "wf (s\<lparr>instances := AList.delete port (instances s), trace := tr\<rparr>)"
proof -
  let ?d = "AList.delete port (instances s)"
  have l: "length ?d \<le> length (instances s)"
    by (rule length_delete_le)
  have k: "fst ` set ?d \<subseteq> fst ` set (instances s)"
    by (rule dom_delete_subset)
  have m: "map_of ?d p = Some w \<Longrightarrow> map_of (instances s) p = Some w" for p w
    by (simp add: delete_conv' split: if_splits)
  have 1: "distinct (map fst ?d)" using assms by (simp add: wf_alt distinct_delete)
  have ge: "\<forall>p \<in> fst ` set (instances s). BASE_PORT \<le> p" using assms by (simp add: wf_alt)
  have 2: "\<forall>p \<in> fst ` set ?d. BASE_PORT \<le> p"
  proof
    fix p assume "p \<in> fst ` set ?d"
    with k have "p \<in> fst ` set (instances s)" by (rule subsetD)
    with ge show "BASE_PORT \<le> p" by (rule bspec)
  qed
  have 3: "length ?d \<le> MAX_INSTANCES" using assms l unfolding wf_alt by linarith
  have 4: "\<forall>p w. assignedPort s = Some p \<longrightarrow> map_of ?d p = Some w \<longrightarrow>
        assignedClient s = Some (client w)"
    using assms m unfolding wf_alt by blast
  show ?thesis using assms 1 2 3 4 unfolding wf_alt[of "s\<lparr>instances := ?d, trace := tr\<rparr>"]
    by (simp add: wf_alt del: map_of_eq_Some_iff)
qed

lemma wf_killInstance: "wf s \<Longrightarrow> wf (killInstance b port s)"
proof (cases "map_of (instances s) port")
  case None
  assume "wf s" then show ?thesis using None by (simp add: killInstance_absent)
next
  case (Some w)
  assume "wf s" then show ?thesis
    using wf_delete[where s = s and port = port] by (simp add: killInstance_present[OF Some])
qed

lemma wf_clear:
  "wf s \<Longrightarrow> wf (s\<lparr>assignedPort := None, assignedClient := None\<rparr>)"
  by (simp add: wf_alt)

lemma wf_onExit:
  assumes "wf s" shows "wf (onExit port s)"
proof -
  have a: "wf (s\<lparr>instances := AList.delete port (instances s), trace := trace s\<rparr>)"
    using assms by (rule wf_delete)
  then have b: "wf (s\<lparr>instances := AList.delete port (instances s)\<rparr>)" by simp
  show ?thesis using b wf_clear[OF b] by (simp add: onExit_def Let_def)
qed

lemma checkCapacity_length:
  assumes "wf s"
  shows "length (instances (checkCapacity b s)) < MAX_INSTANCES"
proof (cases "MAX_INSTANCES \<le> length (instances s)")
  case True
  from checkCapacity_full[OF assms True, of b] obtain pre p w post where
    "instances s = pre @ (p, w) # post" "instances (checkCapacity b s) = pre @ post"
    by force
  then show ?thesis using wf_length[OF assms] by simp
next
  case False
  then show ?thesis by (simp add: checkCapacity_below)
qed

lemma wf_checkCapacity: "wf s \<Longrightarrow> wf (checkCapacity b s)"
  by (auto simp: checkCapacity_def wf_killInstance split: option.splits)

lemma checkCapacity_assigned:
  "assignedPort (checkCapacity b s) = assignedPort s \<and>
   assignedClient (checkCapacity b s) = assignedClient s \<and>
   nextPort (checkCapacity b s) = nextPort s \<and> session (checkCapacity b s) = session s"
  by (auto simp: checkCapacity_def killInstance_def split: option.splits)

lemma wf_register:
  assumes wf: "wf s" and len: "length (instances s) < MAX_INSTANCES"
    and fr: "map_of (instances s) p = None" and ge: "BASE_PORT \<le> p"
  shows "wf (s\<lparr>instances := instances s @ [(p, w\<lparr>client := c\<rparr>)],
        nextPort := p + 1, assignedPort := Some p, assignedClient := Some c,
        trace := tr\<rparr>)"
proof -
  have "p \<notin> fst ` set (instances s)" using fr by (simp add: map_of_eq_None_iff)
  then show ?thesis using wf len ge unfolding wf_alt
    by (auto simp: map_add_def fr simp del: map_of_eq_Some_iff split: option.splits)
qed

lemma wf_spawnInstance:
  assumes wf: "wf s" and len: "length (instances s) < MAX_INSTANCES"
  shows "wf (snd (spawnInstance e s))"
proof -
  obtain q a where fp: "findPort (instances s) (isPortInUse e) (nextPort s) 0 = (q, a)"
    by (cases "findPort (instances s) (isPortInUse e) (nextPort s) 0")
  have np: "BASE_PORT \<le> nextPort s" using wf by (simp add: wf_def)
  have ge: "BASE_PORT \<le> q" using findPort_ge[OF np fp] .
  have adv: "wf (s\<lparr>nextPort := q + 1, trace := tr\<rparr>)" for tr
    using wf ge by (simp add: wf_alt)
  show ?thesis
  proof (cases "a < 100")
    case False
    then show ?thesis using spawnInstance_exhausted[OF fp] wf by simp
  next
    case a: True
    have fr: "map_of (instances s) q = None" using findPort_free[OF fp a] by simp
    show ?thesis
    proof (cases "waitForServer (request e q) (waitStart e) 45000")
      case None
      from spawnInstance_pending[OF fp a None] adv show ?thesis by simp
    next
      case (Some rd)
      show ?thesis
      proof (cases rd)
        case TimedOut
        from spawnInstance_timeout[OF fp a] Some TimedOut adv show ?thesis by simp
      next
        case Ready
        show ?thesis
        proof (cases "createMcpClient e q")
          case (Inl msg)
          from spawnInstance_connect_error[OF fp a _ Inl] Some Ready adv show ?thesis by simp
        next
          case (Inr c')
          have "wf (s\<lparr>instances := instances s @
              [(q, \<lparr>process = spawnCount (trace s), client = c', lastUsed = now e,
                 sessionId = session s\<rparr>\<lparr>client := c'\<rparr>)],
              nextPort := q + 1, assignedPort := Some q, assignedClient := Some c',
              trace := trace s @ [Spawned q (spawnCount (trace s)), Registered q c']\<rparr>)"
            by (rule wf_register[OF wf len fr ge])
          with spawnInstance_success[OF fp a _ Inr] Some Ready show ?thesis by simp
        qed
      qed
    qed
  qed
qed

lemma assignedInstance_Some:
  "assignedInstance s = Some (p, c, w) \<longleftrightarrow>
     assignedClient s = Some c \<and> assignedPort s = Some p \<and> p \<noteq> 0 \<and>
     map_of (instances s) p = Some w"
  by (auto simp: assignedInstance_def split: option.splits)

lemma length_update_present:
  "map_of xs k = Some v \<Longrightarrow> length (AList.update k v' xs) = length xs"
  by (induction xs) (auto split: if_splits)

lemma keys_update_present:
  "map_of xs k = Some v \<Longrightarrow> map fst (AList.update k v' xs) = map fst xs"
  by (induction xs) (auto split: if_splits)

lemma wf_update_present:
  assumes wf: "wf s" and look: "map_of (instances s) p = Some w" and c: "client w' = client w"
  shows "wf (s\<lparr>instances := AList.update p w' (instances s)\<rparr>)"
proof -
  have k: "map fst (AList.update p w' (instances s)) = map fst (instances s)"
    using look by (rule keys_update_present)
  have l: "length (AList.update p w' (instances s)) = length (instances s)"
    using look by (rule length_update_present)
  have ks: "fst ` set (AList.update p w' (instances s)) = fst ` set (instances s)"
    using k by (metis list.set_map)
  show ?thesis using wf look c unfolding wf_alt
    by (simp add: k ks l update_conv' del: map_of_eq_Some_iff)
qed

lemma wf_getOrCreateInstance:
  assumes "wf s" shows "wf (snd (getOrCreateInstance e s))"
proof (cases "assignedInstance s")
  case None
  then show ?thesis
    using wf_spawnInstance[OF wf_checkCapacity[OF assms] checkCapacity_length[OF assms]]
    by (simp add: getOrCreateInstance_def)
next
  case (Some x)
  obtain p c w where x: "x = (p, c, w)" by (cases x)
  from Some x have look: "map_of (instances s) p = Some w"
    by (simp add: assignedInstance_Some)
  show ?thesis using Some x wf_update_present[OF assms look, of "w\<lparr>lastUsed := now e\<rparr>"]
    by (simp add: getOrCreateInstance_def)
qed

lemma wf_touch: "wf s \<Longrightarrow> wf (touch t s)"
  by (auto simp: touch_def wf_update_present split: option.splits)

lemma wf_proxyToolCall:
  assumes "wf s" shows "wf (snd (proxyToolCall e t callTool s))"
proof -
  obtain r s1 where g: "getOrCreateInstance e s = (r, s1)"
    by (cases "getOrCreateInstance e s")
  have wf1: "wf s1" using wf_getOrCreateInstance[OF assms, of e] g by simp
  show ?thesis
  proof (cases r)
    case (Return x)
    obtain p c where "x = (p, c)" by (cases x)
    with g Return wf_touch[OF wf1, of t] show ?thesis by (simp add: proxyToolCall_def)
  next
    case (Throw err)
    with g wf1 show ?thesis by (simp add: proxyToolCall_def)
  next
    case Pending
    with g wf1 show ?thesis by (simp add: proxyToolCall_def)
  qed
qed

subsection \<open>getOrCreateInstance\<close>


lemma getOrCreateInstance_fast:
  "assignedInstance s = Some (p, c, w) \<Longrightarrow>
   getOrCreateInstance e s =
     (Return (p, c), s\<lparr>instances := AList.update p (w\<lparr>lastUsed := now e\<rparr>) (instances s)\<rparr>)"
  by (simp add: getOrCreateInstance_def)

lemma getOrCreateInstance_slow:
  "assignedInstance s = None \<Longrightarrow>
   getOrCreateInstance e s = spawnInstance e (checkCapacity (closeThrows e) s)"
  by (simp add: getOrCreateInstance_def)

lemma wf_assignedInstance:
  assumes "wf s" "assignedPort s = Some p" "map_of (instances s) p = Some w"
  shows "assignedInstance s = Some (p, client w, w)"
proof -
  have "assignedClient s = Some (client w)" using assms by (simp add: wf_alt del: map_of_eq_Some_iff)
  moreover have "BASE_PORT \<le> p" using assms by (simp add: wf_alt del: map_of_eq_Some_iff)
  then have "p \<noteq> 0" by (simp add: BASE_PORT_def)
  ultimately show ?thesis using assms(2,3) by (simp add: assignedInstance_Some)
qed


lemma assignedInstance_fullPool: "assignedInstance fullPool = None"
  by (simp add: assignedInstance_def fullPool_def)

lemma waitForServer_readyEnv: "waitForServer (request readyEnv p) (waitStart readyEnv) 45000 = Some Ready"
  by (simp add: waitForServer_def check.simps readyEnv_def)




text \<open>
  Claim C2. Reuse of the assigned worker. In a well-formed state whose assigned port has
  an entry in the pool, \<^const>\<open>getOrCreateInstance\<close> returns that port with the assigned
  channel, which is the channel of the entry, and changes nothing but the entry's
  \<^verbatim>\<open>lastUsed\<close>, set to the current time: the keys of the pool and their order, the
  event trace (no spawn, no kill) and the port cursor (no allocation) are as before.
  Hence a second call right after any call that returned a worker returns the same
  port and channel, spawns nothing and allocates nothing.
\<close>

theorem reuse_assigned:
  assumes "wf s"
  shows "(assignedPort s = Some p \<and> map_of (instances s) p = Some w \<longrightarrow>
            assignedClient s = Some (client w) \<and>
            getOrCreateInstance e s =
              (Return (p, client w),
               s\<lparr>instances := AList.update p (w\<lparr>lastUsed := now e\<rparr>) (instances s)\<rparr>) \<and>
            map_of (instances (snd (getOrCreateInstance e s))) p = Some (w\<lparr>lastUsed := now e\<rparr>) \<and>
            map fst (instances (snd (getOrCreateInstance e s))) = map fst (instances s) \<and>
            trace (snd (getOrCreateInstance e s)) = trace s \<and>
            nextPort (snd (getOrCreateInstance e s)) = nextPort s) \<and>
         (getOrCreateInstance e s = (Return r, s1) \<longrightarrow>
            fst (getOrCreateInstance e2 s1) = Return r \<and>
            map fst (instances (snd (getOrCreateInstance e2 s1))) = map fst (instances s1) \<and>
            trace (snd (getOrCreateInstance e2 s1)) = trace s1 \<and>
            nextPort (snd (getOrCreateInstance e2 s1)) = nextPort s1)"
proof (intro conjI impI)
  assume a: "assignedPort s = Some p \<and> map_of (instances s) p = Some w"
  then have ap: "assignedPort s = Some p" and look: "map_of (instances s) p = Some w" by simp_all
  have ai: "assignedInstance s = Some (p, client w, w)"
    using wf_assignedInstance[OF assms ap look] .
  show "assignedClient s = Some (client w)" using ai by (simp add: assignedInstance_Some)
  show g: "getOrCreateInstance e s =
              (Return (p, client w),
               s\<lparr>instances := AList.update p (w\<lparr>lastUsed := now e\<rparr>) (instances s)\<rparr>)"
    using ai by (rule getOrCreateInstance_fast)
  show "map_of (instances (snd (getOrCreateInstance e s))) p = Some (w\<lparr>lastUsed := now e\<rparr>)"
    by (simp add: g update_conv')
  show "map fst (instances (snd (getOrCreateInstance e s))) = map fst (instances s)"
    using look by (simp add: g keys_update_present)
  show "trace (snd (getOrCreateInstance e s)) = trace s" by (simp add: g)
  show "nextPort (snd (getOrCreateInstance e s)) = nextPort s" by (simp add: g)
next
  assume r: "getOrCreateInstance e s = (Return r, s1)"
  obtain p c where pc: "r = (p, c)" by (cases r)
  have wf1: "wf s1" using wf_getOrCreateInstance[OF assms, of e] r by simp
  have "assignedPort s1 = Some p \<and> (\<exists>w. map_of (instances s1) p = Some w \<and> client w = c)"
  proof (cases "assignedInstance s")
    case None
    from r None have "spawnInstance e (checkCapacity (closeThrows e) s) = (Return (p, c), s1)"
      by (simp add: getOrCreateInstance_slow pc)
    from spawnInstance_Return[OF this] show ?thesis by (auto simp: map_add_def)
  next
    case (Some x)
    obtain p' c' w' where x: "x = (p', c', w')" by (cases x)
    from Some x have f: "assignedClient s = Some c'" "assignedPort s = Some p'"
      "map_of (instances s) p' = Some w'" by (simp_all add: assignedInstance_Some)
    from wf_assignedInstance[OF assms f(2,3)] Some x have cw: "c' = client w'" by simp
    from getOrCreateInstance_fast[of s p' c' w' e] Some x r pc
    have "p' = p" "c' = c" "s1 = s\<lparr>instances := AList.update p' (w'\<lparr>lastUsed := now e\<rparr>) (instances s)\<rparr>"
      by simp_all
    then show ?thesis using f cw by (simp add: update_conv')
  qed
  then obtain w where ap1: "assignedPort s1 = Some p" and look1: "map_of (instances s1) p = Some w"
    and cw: "client w = c" by blast
  have ai: "assignedInstance s1 = Some (p, c, w)"
    using wf_assignedInstance[OF wf1 ap1 look1] cw by simp
  have g: "getOrCreateInstance e2 s1 =
      (Return (p, c), s1\<lparr>instances := AList.update p (w\<lparr>lastUsed := now e2\<rparr>) (instances s1)\<rparr>)"
    using ai by (rule getOrCreateInstance_fast)
  show "fst (getOrCreateInstance e2 s1) = Return r" by (simp add: g pc)
  show "map fst (instances (snd (getOrCreateInstance e2 s1))) = map fst (instances s1)"
    using look1 by (simp add: g keys_update_present)
  show "trace (snd (getOrCreateInstance e2 s1)) = trace s1" by (simp add: g)
  show "nextPort (snd (getOrCreateInstance e2 s1)) = nextPort s1" by (simp add: g)
qed

theorem reuse_assigned_witness:
  "wf smallPool \<and> assignedPort smallPool = Some 9001 \<and>
   map_of (instances smallPool) 9001 = Some (mkWorker 5 20) \<and>
   getOrCreateInstance readyEnv smallPool =
     (Return (9001, 105),
      smallPool\<lparr>instances := [(9000, mkWorker 4 50), (9001, mkWorker 5 1000)]\<rparr>) \<and>
   fst (getOrCreateInstance deadEnv (snd (getOrCreateInstance readyEnv smallPool))) = Return (9001, 105) \<and>
   trace (snd (getOrCreateInstance deadEnv (snd (getOrCreateInstance readyEnv smallPool)))) =
     trace smallPool"
proof -
  let ?s1 = "snd (getOrCreateInstance readyEnv smallPool)"
  have 1: "wf smallPool" by (rule wf_smallPool)
  have 2: "assignedPort smallPool = Some 9001" by (simp add: smallPool_def)
  have 3: "map_of (instances smallPool) 9001 = Some (mkWorker 5 20)" by (simp add: smallPool_def)
  have 4: "AList.update 9001 (mkWorker 5 20\<lparr>lastUsed := now readyEnv\<rparr>) (instances smallPool)
      = [(9000, mkWorker 4 50), (9001, mkWorker 5 1000)]"
    by (simp add: smallPool_def mkWorker_def readyEnv_def)
  have 5: "client (mkWorker 5 20) = 105" by (simp add: mkWorker_def)
  note r = reuse_assigned[OF 1, of 9001 "mkWorker 5 20" readyEnv "(9001, 105)" ?s1 deadEnv]
  from r 2 3 have "getOrCreateInstance readyEnv smallPool =
     (Return (9001, client (mkWorker 5 20)),
      smallPool\<lparr>instances := AList.update 9001 (mkWorker 5 20\<lparr>lastUsed := now readyEnv\<rparr>)
         (instances smallPool)\<rparr>)" by blast
  then have a: "getOrCreateInstance readyEnv smallPool =
     (Return (9001, 105),
      smallPool\<lparr>instances := [(9000, mkWorker 4 50), (9001, mkWorker 5 1000)]\<rparr>)"
    by (simp only: 4 5)
  from r 2 3 have b: "trace ?s1 = trace smallPool" by blast
  have d: "getOrCreateInstance readyEnv smallPool = (Return (9001, 105), ?s1)"
    using a by (simp add: prod_eq_iff)
  from r d have c: "fst (getOrCreateInstance deadEnv ?s1) = Return (9001, 105)"
    and c2: "trace (snd (getOrCreateInstance deadEnv ?s1)) = trace ?s1" by blast+
  from c2 b have e: "trace (snd (getOrCreateInstance deadEnv ?s1)) = trace smallPool"
    by (rule trans)
  from 1 2 3 a c e show ?thesis by blast
qed

subsection \<open>The readiness wait\<close>

lemma check_Response: "req t = Response d st \<Longrightarrow> check req start timeout t = Some Ready"
  by (subst check.simps) simp

lemma check_Silent: "req t = Silent \<Longrightarrow> check req start timeout t = None"
  by (subst check.simps) simp

lemma check_Failure_late:
  "req t = Failure d \<Longrightarrow> timeout < t + int d - start \<Longrightarrow> check req start timeout t = Some TimedOut"
  by (subst check.simps) simp

lemma check_Failure_early:
  "req t = Failure d \<Longrightarrow> \<not> timeout < t + int d - start \<Longrightarrow>
   check req start timeout t = check req start timeout (t + int d + 1000)"
  by (subst check.simps) simp

lemma check_all_fail:
  "(\<And>u. \<exists>d. req u = Failure d) \<Longrightarrow> check req start timeout t = Some TimedOut"
proof (induction req start timeout t rule: check.induct)
  case (1 req start timeout t)
  from "1.prems" obtain d where d: "req t = Failure d" by blast
  show ?case
  proof (cases "timeout < t + int d - start")
    case True
    with d show ?thesis by (rule check_Failure_late)
  next
    case False
    have "check req start timeout (t + int d + 1000) = Some TimedOut"
      using "1.IH"[OF d False "1.prems"] .
    with check_Failure_early[where req = req and t = t, OF d False] show ?thesis by simp
  qed
qed

lemma check_TimedOut:
  "check req start timeout t = Some TimedOut \<Longrightarrow>
   \<exists>u d. t \<le> u \<and> req u = Failure d \<and> timeout < u + int d - start"
proof (induction req start timeout t rule: check.induct)
  case (1 req start timeout t)
  show ?case
  proof (cases "req t")
    case (Response d st)
    with "1.prems" show ?thesis by (simp add: check_Response)
  next
    case Silent
    with "1.prems" show ?thesis by (simp add: check_Silent)
  next
    case (Failure d)
    show ?thesis
    proof (cases "timeout < t + int d - start")
      case True
      with Failure show ?thesis by (intro exI[of _ t] exI[of _ d]) simp
    next
      case False
      from "1.prems" check_Failure_early[where req = req and t = t, OF Failure False]
      have "check req start timeout (t + int d + 1000) = Some TimedOut" by simp
      from "1.IH"[OF Failure False this] obtain u d' where
        "t + int d + 1000 \<le> u" "req u = Failure d'" "timeout < u + int d' - start" by blast
      then show ?thesis by (intro exI[of _ u] exI[of _ d']) simp
    qed
  qed
qed

lemma waitForServer_deadEnv:
  "waitForServer (request deadEnv p) (waitStart deadEnv) 45000 = Some TimedOut"
  unfolding waitForServer_def by (rule check_all_fail) (simp add: deadEnv_def)

subsection \<open>Failed spawns and stale assignments\<close>

lemma spawnInstance_Throw:
  assumes "spawnInstance e s = (Throw err, s')"
  shows "instances s' = instances s \<and> assignedPort s' = assignedPort s \<and>
         assignedClient s' = assignedClient s"
  using spawnInstance_no_Return[OF assms] by simp

lemma findPort_first:
  "map_of insts p = None \<Longrightarrow> \<not> inUse p \<Longrightarrow> findPort insts inUse p 0 = (p, 0)"
  by (subst findPort.simps) simp

lemma assignedInstance_stalePool: "assignedInstance stalePool = None"
  by (simp add: assignedInstance_def stalePool_def)

lemma checkCapacity_subset: "set (instances (checkCapacity b s)) \<subseteq> set (instances s)"
  by (auto simp: checkCapacity_def instances_killInstance AList.delete_eq split: option.splits)

text \<open>
  Claim C4 says that a call whose spawn fails leaves the membership of the pool as it
  was. The capacity check comes before the spawn: with a full pool and a server that
  never answers, the call throws the timeout error after the worker on port 9001 was
  killed, and the pool holds nine of its ten workers.
\<close>

theorem spawn_failure_after_eviction:
  "assignedInstance fullPool = None \<and>
   fst (getOrCreateInstance deadEnv fullPool) = Throw (ServerTimeout 9011) \<and>
   map fst (instances fullPool) =
     [9000, 9001, 9002, 9003, 9004, 9005, 9006, 9007, 9008, 9009] \<and>
   map fst (instances (snd (getOrCreateInstance deadEnv fullPool))) =
     [9000, 9002, 9003, 9004, 9005, 9006, 9007, 9008, 9009]"
  by code_simp

text \<open>
  Claim C4, as the code has it. Take a call of \<^const>\<open>getOrCreateInstance\<close> that goes to the
  spawn (the session has no live assigned worker), and let \<open>(p, a)\<close> be what the port
  scan returns after the capacity check. When the scan used its 100 attempts the call
  throws the port error; when the readiness wait times out it throws the timeout error
  for \<open>p\<close>; when the handshake fails it throws the handshake's error. Whenever the call
  throws, the assignment is the one before the call and every entry of the pool was in
  the pool before the call: nothing is added. A pool that held fewer than
  \<^const>\<open>MAX_INSTANCES\<close> entries is exactly as before the call; a full pool (in a
  well-formed state) is the pool before the call without one entry of least
  \<^verbatim>\<open>lastUsed\<close>, the one the capacity check killed, the others in their order.
\<close>

theorem spawn_failure_adds_nothing:
  assumes "assignedInstance s = None"
    and "findPort (instances (checkCapacity (closeThrows e) s)) (isPortInUse e) (nextPort s) 0 = (p, a)"
  shows "(100 \<le> a \<longrightarrow> fst (getOrCreateInstance e s) = Throw NoAvailablePorts) \<and>
         (a < 100 \<and> waitForServer (request e p) (waitStart e) 45000 = Some TimedOut \<longrightarrow>
            fst (getOrCreateInstance e s) = Throw (ServerTimeout p)) \<and>
         (a < 100 \<and> waitForServer (request e p) (waitStart e) 45000 = Some Ready \<and>
          createMcpClient e p = Inl msg \<longrightarrow>
            fst (getOrCreateInstance e s) = Throw (ConnectError msg)) \<and>
         (fst (getOrCreateInstance e s) = Throw err \<longrightarrow>
            assignedPort (snd (getOrCreateInstance e s)) = assignedPort s \<and>
            assignedClient (snd (getOrCreateInstance e s)) = assignedClient s \<and>
            set (instances (snd (getOrCreateInstance e s))) \<subseteq> set (instances s) \<and>
            (length (instances s) < MAX_INSTANCES \<longrightarrow>
               instances (snd (getOrCreateInstance e s)) = instances s) \<and>
            (wf s \<and> MAX_INSTANCES \<le> length (instances s) \<longrightarrow>
               (\<exists>pre q w post.
                  instances s = pre @ (q, w) # post \<and>
                  (\<forall>x \<in> set (instances s). lastUsed w \<le> lastUsed (snd x)) \<and>
                  instances (snd (getOrCreateInstance e s)) = pre @ post)))"
proof -
  let ?s0 = "checkCapacity (closeThrows e) s"
  let ?s' = "snd (getOrCreateInstance e s)"
  have g: "getOrCreateInstance e s = spawnInstance e ?s0"
    using assms(1) by (rule getOrCreateInstance_slow)
  have fp: "findPort (instances ?s0) (isPortInUse e) (nextPort ?s0) 0 = (p, a)"
    using assms(2) by (simp add: checkCapacity_assigned)
  have 1: "100 \<le> a \<longrightarrow> fst (getOrCreateInstance e s) = Throw NoAvailablePorts"
    using spawnInstance_exhausted[OF fp] by (simp add: g)
  have 2: "a < 100 \<and> waitForServer (request e p) (waitStart e) 45000 = Some TimedOut \<longrightarrow>
            fst (getOrCreateInstance e s) = Throw (ServerTimeout p)"
    using spawnInstance_timeout[OF fp] by (simp add: g)
  have 3: "a < 100 \<and> waitForServer (request e p) (waitStart e) 45000 = Some Ready \<and>
          createMcpClient e p = Inl msg \<longrightarrow>
            fst (getOrCreateInstance e s) = Throw (ConnectError msg)"
    using spawnInstance_connect_error[OF fp] by (simp add: g)
  have 4: "fst (getOrCreateInstance e s) = Throw err \<longrightarrow>
            assignedPort ?s' = assignedPort s \<and>
            assignedClient ?s' = assignedClient s \<and>
            set (instances ?s') \<subseteq> set (instances s) \<and>
            (length (instances s) < MAX_INSTANCES \<longrightarrow> instances ?s' = instances s) \<and>
            (wf s \<and> MAX_INSTANCES \<le> length (instances s) \<longrightarrow>
               (\<exists>pre q w post.
                  instances s = pre @ (q, w) # post \<and>
                  (\<forall>x \<in> set (instances s). lastUsed w \<le> lastUsed (snd x)) \<and>
                  instances ?s' = pre @ post))"
  proof
    assume "fst (getOrCreateInstance e s) = Throw err"
    then have "spawnInstance e ?s0 = (Throw err, ?s')"
      by (simp add: g prod_eq_iff)
    from spawnInstance_Throw[OF this] have
      i: "instances ?s' = instances ?s0" and
      ap: "assignedPort ?s' = assignedPort s" and
      ac: "assignedClient ?s' = assignedClient s"
      by (simp_all add: checkCapacity_assigned)
    have sub: "set (instances ?s') \<subseteq> set (instances s)"
      unfolding i by (rule checkCapacity_subset)
    have below: "length (instances s) < MAX_INSTANCES \<longrightarrow> instances ?s' = instances s"
      unfolding i by (simp add: checkCapacity_below)
    have full: "wf s \<and> MAX_INSTANCES \<le> length (instances s) \<longrightarrow>
               (\<exists>pre q w post.
                  instances s = pre @ (q, w) # post \<and>
                  (\<forall>x \<in> set (instances s). lastUsed w \<le> lastUsed (snd x)) \<and>
                  instances ?s' = pre @ post)"
    proof
      assume h: "wf s \<and> MAX_INSTANCES \<le> length (instances s)"
      then have wf: "wf s" and len: "MAX_INSTANCES \<le> length (instances s)" by simp_all
      from checkCapacity_full[OF wf len, of "closeThrows e"] obtain pre q w post where
        sp: "instances s = pre @ (q, w) # post" and fm: "firstMin pre w post" and
        cc: "checkCapacity (closeThrows e) s = s\<lparr>instances := pre @ post,
          trace := trace s @ [if closeThrows e then CloseFailed (client w) else Closed (client w),
                              Killed (process w)]\<rparr>" by blast
      have m: "\<forall>x \<in> set (instances s). lastUsed w \<le> lastUsed (snd x)"
        using fm sp by (auto simp: firstMin_def less_imp_le)
      have "instances ?s0 = pre @ post" by (subst cc) simp
      then have "instances ?s' = pre @ post" using i by simp
      with sp m show "\<exists>pre q w post.
                  instances s = pre @ (q, w) # post \<and>
                  (\<forall>x \<in> set (instances s). lastUsed w \<le> lastUsed (snd x)) \<and>
                  instances ?s' = pre @ post" by blast
    qed
    from ap ac sub below full
    show "assignedPort ?s' = assignedPort s \<and>
            assignedClient ?s' = assignedClient s \<and>
            set (instances ?s') \<subseteq> set (instances s) \<and>
            (length (instances s) < MAX_INSTANCES \<longrightarrow> instances ?s' = instances s) \<and>
            (wf s \<and> MAX_INSTANCES \<le> length (instances s) \<longrightarrow>
               (\<exists>pre q w post.
                  instances s = pre @ (q, w) # post \<and>
                  (\<forall>x \<in> set (instances s). lastUsed w \<le> lastUsed (snd x)) \<and>
                  instances ?s' = pre @ post))"
      by (intro conjI)
  qed
  show ?thesis by (intro conjI 1 2 3 4)
qed

theorem spawn_failure_adds_nothing_witness:
  "assignedInstance stalePool = None \<and>
   findPort (instances (checkCapacity (closeThrows deadEnv) stalePool)) (isPortInUse deadEnv)
     (nextPort stalePool) 0 = (9002, 0) \<and>
   waitForServer (request deadEnv 9002) (waitStart deadEnv) 45000 = Some TimedOut \<and>
   fst (getOrCreateInstance deadEnv stalePool) = Throw (ServerTimeout 9002) \<and>
   length (instances stalePool) < MAX_INSTANCES \<and>
   instances (snd (getOrCreateInstance deadEnv stalePool)) = instances stalePool \<and>
   assignedPort (snd (getOrCreateInstance deadEnv stalePool)) = assignedPort stalePool \<and>
   assignedClient (snd (getOrCreateInstance deadEnv stalePool)) = assignedClient stalePool \<and>
   findPort (instances (checkCapacity (closeThrows crowdedEnv) stalePool)) (isPortInUse crowdedEnv)
     (nextPort stalePool) 0 = (9001, 100) \<and>
   fst (getOrCreateInstance crowdedEnv stalePool) = Throw NoAvailablePorts \<and>
   instances (snd (getOrCreateInstance crowdedEnv stalePool)) = instances stalePool \<and>
   findPort (instances (checkCapacity (closeThrows refusingEnv) stalePool)) (isPortInUse refusingEnv)
     (nextPort stalePool) 0 = (9002, 0) \<and>
   createMcpClient refusingEnv 9002 = Inl ''SSE error'' \<and>
   fst (getOrCreateInstance refusingEnv stalePool) = Throw (ConnectError ''SSE error'') \<and>
   instances (snd (getOrCreateInstance refusingEnv stalePool)) = instances stalePool \<and>
   assignedInstance fullPool = None \<and> wf fullPool \<and>
   MAX_INSTANCES \<le> length (instances fullPool) \<and>
   fst (getOrCreateInstance deadEnv fullPool) = Throw (ServerTimeout 9011) \<and>
   set (instances (snd (getOrCreateInstance deadEnv fullPool))) \<subseteq> set (instances fullPool) \<and>
   (\<exists>pre q w post.
      instances fullPool = pre @ (q, w) # post \<and>
      (\<forall>x \<in> set (instances fullPool). lastUsed w \<le> lastUsed (snd x)) \<and>
      instances (snd (getOrCreateInstance deadEnv fullPool)) = pre @ post)"
proof -
  have 1: "assignedInstance stalePool = None" by (rule assignedInstance_stalePool)
  have len: "length (instances stalePool) < MAX_INSTANCES"
    by (simp add: stalePool_def MAX_INSTANCES_def)
  have 2: "findPort (instances (checkCapacity (closeThrows deadEnv) stalePool)) (isPortInUse deadEnv)
     (nextPort stalePool) 0 = (9002, 0)"
    by code_simp
  have 3: "waitForServer (request deadEnv 9002) (waitStart deadEnv) 45000 = Some TimedOut"
    by (rule waitForServer_deadEnv)
  note r = spawn_failure_adds_nothing[OF 1 2, of "''SSE error''" "ServerTimeout 9002"]
  have 4: "fst (getOrCreateInstance deadEnv stalePool) = Throw (ServerTimeout 9002)"
    using r[THEN conjunct2, THEN conjunct1] 3 by simp
  note k = r[THEN conjunct2, THEN conjunct2, THEN conjunct2, THEN mp, OF 4]
  have 5: "instances (snd (getOrCreateInstance deadEnv stalePool)) = instances stalePool"
    using k[THEN conjunct2, THEN conjunct2, THEN conjunct2, THEN conjunct1] len by (rule mp)
  have 6: "assignedPort (snd (getOrCreateInstance deadEnv stalePool)) = assignedPort stalePool"
    using k by (elim conjE)
  have 7: "assignedClient (snd (getOrCreateInstance deadEnv stalePool)) = assignedClient stalePool"
    using k by (elim conjE)
  have 8: "findPort (instances (checkCapacity (closeThrows crowdedEnv) stalePool))
     (isPortInUse crowdedEnv) (nextPort stalePool) 0 = (9001, 100)"
    by code_simp
  note rc = spawn_failure_adds_nothing[OF 1 8, of "''SSE error''" NoAvailablePorts]
  have 9: "fst (getOrCreateInstance crowdedEnv stalePool) = Throw NoAvailablePorts"
    using rc[THEN conjunct1] by simp
  note kc = rc[THEN conjunct2, THEN conjunct2, THEN conjunct2, THEN mp, OF 9]
  have 10: "instances (snd (getOrCreateInstance crowdedEnv stalePool)) = instances stalePool"
    using kc[THEN conjunct2, THEN conjunct2, THEN conjunct2, THEN conjunct1] len by (rule mp)
  have 11: "findPort (instances (checkCapacity (closeThrows refusingEnv) stalePool))
     (isPortInUse refusingEnv) (nextPort stalePool) 0 = (9002, 0)"
    by code_simp
  have 12: "createMcpClient refusingEnv 9002 = Inl ''SSE error''" by (simp add: refusingEnv_def)
  have w: "waitForServer (request refusingEnv 9002) (waitStart refusingEnv) 45000 = Some Ready"
    by (simp add: waitForServer_def check_Response refusingEnv_def)
  note rr = spawn_failure_adds_nothing[OF 1 11, of "''SSE error''" "ConnectError ''SSE error''"]
  have 13: "fst (getOrCreateInstance refusingEnv stalePool) = Throw (ConnectError ''SSE error'')"
    using rr[THEN conjunct2, THEN conjunct2, THEN conjunct1] w 12 by simp
  note kr = rr[THEN conjunct2, THEN conjunct2, THEN conjunct2, THEN mp, OF 13]
  have 14: "instances (snd (getOrCreateInstance refusingEnv stalePool)) = instances stalePool"
    using kr[THEN conjunct2, THEN conjunct2, THEN conjunct2, THEN conjunct1] len by (rule mp)
  have 15: "assignedInstance fullPool = None" by (rule assignedInstance_fullPool)
  have 16: "wf fullPool" by (rule wf_fullPool)
  have 17: "MAX_INSTANCES \<le> length (instances fullPool)"
    by (simp add: fullPool_def MAX_INSTANCES_def)
  have f: "findPort (instances (checkCapacity (closeThrows deadEnv) fullPool)) (isPortInUse deadEnv)
     (nextPort fullPool) 0 = (9011, 0)"
    by code_simp
  have t3: "waitForServer (request deadEnv 9011) (waitStart deadEnv) 45000 = Some TimedOut"
    by (rule waitForServer_deadEnv)
  note rf = spawn_failure_adds_nothing[OF 15 f, of "''SSE error''" "ServerTimeout 9011"]
  have 18: "fst (getOrCreateInstance deadEnv fullPool) = Throw (ServerTimeout 9011)"
    using rf[THEN conjunct2, THEN conjunct1] t3 by simp
  note kf = rf[THEN conjunct2, THEN conjunct2, THEN conjunct2, THEN mp, OF 18]
  have 19: "set (instances (snd (getOrCreateInstance deadEnv fullPool))) \<subseteq> set (instances fullPool)"
    using kf by (elim conjE)
  have 20: "\<exists>pre q w post.
      instances fullPool = pre @ (q, w) # post \<and>
      (\<forall>x \<in> set (instances fullPool). lastUsed w \<le> lastUsed (snd x)) \<and>
      instances (snd (getOrCreateInstance deadEnv fullPool)) = pre @ post"
    using kf[THEN conjunct2, THEN conjunct2, THEN conjunct2, THEN conjunct2] 16 17 by blast
  show ?thesis by (intro conjI 1 2 3 4 len 5 6 7 8 9 10 11 12 13 14 15 16 17 18 19 20)
qed

text \<open>
  Claim C10. A returned worker is registered, and a stale assignment is not returned.
  In a well-formed state, a worker that \<^const>\<open>getOrCreateInstance\<close> returns has an entry in
  the pool under its port, holding the returned channel, and is the assignment.
  \<^const>\<open>killInstance\<close> leaves \<^verbatim>\<open>assignedPort\<close> and \<^verbatim>\<open>assignedClient\<close> as they are, so killing
  the assigned port leaves a stale assignment; the lookup of the guard then finds no
  entry, and a call that returns has spawned a process on a port free in the pool and
  returns the channel that \<^verbatim>\<open>createMcpClient\<close> made for it, not the cached one.
\<close>

theorem returned_worker_is_registered:
  assumes "wf s"
  shows "(getOrCreateInstance e s = (Return (p, c), s') \<longrightarrow>
            (\<exists>w. map_of (instances s') p = Some w \<and> client w = c) \<and>
            assignedPort s' = Some p \<and> assignedClient s' = Some c) \<and>
         assignedPort (killInstance b q s) = assignedPort s \<and>
         assignedClient (killInstance b q s) = assignedClient s \<and>
         (assignedPort s = Some q \<longrightarrow> assignedInstance (killInstance b q s) = None) \<and>
         (assignedInstance s = None \<and> getOrCreateInstance e s = (Return (p, c), s') \<longrightarrow>
            map_of (instances (checkCapacity (closeThrows e) s)) p = None \<and>
            createMcpClient e p = Inr c \<and>
            trace s' = trace (checkCapacity (closeThrows e) s) @
              [Spawned p (spawnCount (trace s)), Registered p c])"
proof (intro conjI impI)
  assume r: "getOrCreateInstance e s = (Return (p, c), s')"
  have "(\<exists>w. map_of (instances s') p = Some w \<and> client w = c) \<and>
            assignedPort s' = Some p \<and> assignedClient s' = Some c"
  proof (cases "assignedInstance s")
    case None
    from r None have "spawnInstance e (checkCapacity (closeThrows e) s) = (Return (p, c), s')"
      by (simp add: getOrCreateInstance_slow)
    from spawnInstance_Return[OF this] show ?thesis by (auto simp: map_add_def)
  next
    case (Some x)
    obtain p' c' w' where x: "x = (p', c', w')" by (cases x)
    from Some x have f: "assignedClient s = Some c'" "assignedPort s = Some p'"
      "map_of (instances s) p' = Some w'" by (simp_all add: assignedInstance_Some)
    from wf_assignedInstance[OF assms f(2,3)] Some x have cw: "c' = client w'" by simp
    from getOrCreateInstance_fast[of s p' c' w' e] Some x r
    have "p' = p" "c' = c" "s' = s\<lparr>instances := AList.update p' (w'\<lparr>lastUsed := now e\<rparr>) (instances s)\<rparr>"
      by simp_all
    then show ?thesis using f cw by (simp add: update_conv')
  qed
  then show "\<exists>w. map_of (instances s') p = Some w \<and> client w = c"
    and "assignedPort s' = Some p" and "assignedClient s' = Some c" by blast+
next
  show "assignedPort (killInstance b q s) = assignedPort s"
    by (simp add: killInstance_def split: option.splits)
  show "assignedClient (killInstance b q s) = assignedClient s"
    by (simp add: killInstance_def split: option.splits)
next
  assume "assignedPort s = Some q"
  then have "assignedPort (killInstance b q s) = Some q"
    by (simp add: killInstance_def split: option.splits)
  moreover have "map_of (instances (killInstance b q s)) q = None"
    by (simp add: instances_killInstance map_of_delete_same)
  ultimately show "assignedInstance (killInstance b q s) = None"
    by (simp add: assignedInstance_def split: option.splits)
next
  assume a: "assignedInstance s = None \<and> getOrCreateInstance e s = (Return (p, c), s')"
  then have n: "assignedInstance s = None" and r: "getOrCreateInstance e s = (Return (p, c), s')"
    by simp_all
  have run: "spawnInstance e (checkCapacity (closeThrows e) s) = (Return (p, c), s')"
    using getOrCreateInstance_slow[OF n, of e] r by simp
  have sc: "spawnCount (trace (checkCapacity (closeThrows e) s)) = spawnCount (trace s)"
    by (auto simp: checkCapacity_def killInstance_def spawnCount_def split: option.splits)
  from spawnInstance_Return[OF run]
  show "map_of (instances (checkCapacity (closeThrows e) s)) p = None"
    and "createMcpClient e p = Inr c"
    and "trace s' = trace (checkCapacity (closeThrows e) s) @
              [Spawned p (spawnCount (trace s)), Registered p c]"
    by (simp_all add: sc)
qed

lemma getOrCreateInstance_first_free:
  assumes "assignedInstance s = None" and "length (instances s) < MAX_INSTANCES"
    and "map_of (instances s) (nextPort s) = None" and "\<not> isPortInUse e (nextPort s)"
    and "waitForServer (request e (nextPort s)) (waitStart e) 45000 = Some Ready"
    and "createMcpClient e (nextPort s) = Inr c"
  shows "fst (getOrCreateInstance e s) = Return (nextPort s, c)"
proof -
  have fp: "findPort (instances s) (isPortInUse e) (nextPort s) 0 = (nextPort s, 0)"
    using assms(3,4) by (rule findPort_first)
  show ?thesis
    using spawnInstance_success[OF fp _ assms(5,6)]
    by (simp add: getOrCreateInstance_slow[OF assms(1)] checkCapacity_below[OF assms(2)])
qed

theorem returned_worker_is_registered_witness:
  "wf smallPool \<and> assignedPort smallPool = Some 9001 \<and>
   assignedPort (killInstance False 9001 smallPool) = Some 9001 \<and>
   assignedClient (killInstance False 9001 smallPool) = Some 105 \<and>
   assignedInstance (killInstance False 9001 smallPool) = None \<and>
   wf (killInstance False 9001 smallPool) \<and>
   fst (getOrCreateInstance readyEnv (killInstance False 9001 smallPool)) = Return (9002, 7) \<and>
   (\<exists>w. map_of (instances (snd (getOrCreateInstance readyEnv (killInstance False 9001 smallPool))))
           9002 = Some w \<and> client w = 7) \<and>
   createMcpClient readyEnv 9002 = Inr 7"
proof -
  let ?k = "killInstance False 9001 smallPool"
  let ?s' = "snd (getOrCreateInstance readyEnv ?k)"
  have 1: "wf smallPool" by (rule wf_smallPool)
  have 2: "assignedPort smallPool = Some 9001" by (simp add: smallPool_def)
  have 3: "assignedClient smallPool = Some 105" by (simp add: smallPool_def)
  note a = returned_worker_is_registered[OF 1, of readyEnv 9002 7 ?s' False 9001]
  from a 2 have 4: "assignedPort ?k = Some 9001" by simp
  from a 3 have 5: "assignedClient ?k = Some 105" by simp
  from a 2 have 6: "assignedInstance ?k = None" by blast
  have 7: "wf ?k" using 1 by (rule wf_killInstance)
  have i: "instances ?k = [(9000, mkWorker 4 50)]"
    by (simp add: instances_killInstance smallPool_def)
  have n: "nextPort ?k = 9002"
    by (simp add: killInstance_def smallPool_def)
  have 8: "fst (getOrCreateInstance readyEnv ?k) = Return (9002, 7)"
    using getOrCreateInstance_first_free[of ?k readyEnv 7, OF 6] waitForServer_readyEnv
    by (simp add: i n MAX_INSTANCES_def readyEnv_def)
  then have 9: "getOrCreateInstance readyEnv ?k = (Return (9002, 7), ?s')"
    by (simp add: prod_eq_iff)
  note b = returned_worker_is_registered[OF 7, of readyEnv 9002 7 ?s' False 9001]
  from b 9 have 10: "\<exists>w. map_of (instances ?s') 9002 = Some w \<and> client w = 7" by blast
  from b 6 9 have 11: "createMcpClient readyEnv 9002 = Inr 7" by blast
  show ?thesis by (intro conjI 1 2 4 5 6 7 8 10 11)
qed

subsection \<open>proxyToolCall\<close>

lemma getOrCreateInstance_Return_key:
  assumes "getOrCreateInstance e s = (Return (p, c), s1)"
  shows "\<exists>w. map_of (instances s1) p = Some w"
proof (cases "assignedInstance s")
  case None
  from assms None have "spawnInstance e (checkCapacity (closeThrows e) s) = (Return (p, c), s1)"
    by (simp add: getOrCreateInstance_slow)
  from spawnInstance_Return[OF this] show ?thesis by (auto simp: map_add_def)
next
  case (Some x)
  obtain p' c' w' where x: "x = (p', c', w')" by (cases x)
  from getOrCreateInstance_fast[of s p' c' w' e] Some x assms
  have "p' = p" "s1 = s\<lparr>instances := AList.update p' (w'\<lparr>lastUsed := now e\<rparr>) (instances s)\<rparr>"
    by simp_all
  then show ?thesis by (simp add: update_conv')
qed

lemma touch_keys: "map fst (instances (touch t s)) = map fst (instances s)"
  by (auto simp: touch_def keys_update_present split: option.splits)

lemma touch_trace: "trace (touch t s) = trace s"
  by (auto simp: touch_def split: option.splits)

lemma touch_assigned:
  "assignedPort (touch t s) = assignedPort s \<and> assignedClient (touch t s) = assignedClient s"
  by (auto simp: touch_def split: option.splits)

lemma proxyToolCall_Return:
  "getOrCreateInstance e s = (Return (p, c), s1) \<Longrightarrow>
   proxyToolCall e t callTool s = (Return (normalize (callTool c)), touch t s1)"
  by (simp add: proxyToolCall_def)

text \<open>
  Claim C5. A failed forwarded call becomes a structured error and costs the worker
  nothing. Take a call of \<^const>\<open>proxyToolCall\<close> whose \<^const>\<open>getOrCreateInstance\<close> returned a
  worker. When \<^verbatim>\<open>callTool\<close> throws (a channel error, or an error the SDK raises for the
  remote side), the dispatcher returns, and does not throw, a result with
  \<^verbatim>\<open>isError: true\<close> whose content is the text \<^verbatim>\<open>Error: \<close> followed by the message; when
  the remote side reports the error in a result \<^verbatim>\<open>{ content, isError: true }\<close>, that
  result comes back as it is. Whatever the forwarded call does, the state after the
  dispatcher is the state after the \<^verbatim>\<open>lastUsed\<close> update: the pool has the same keys, the
  worker's port among them, no event happened (no kill), and in a well-formed state
  the next \<^const>\<open>getOrCreateInstance\<close> returns the same worker.
\<close>

theorem proxy_failure_is_structured:
  assumes "getOrCreateInstance e s = (Return (p, c), s1)"
  shows "(callTool c = Threw msg \<longrightarrow>
            fst (proxyToolCall e t callTool s) =
              Return \<lparr>content = [TextItem (''Error: '' @ msg)], isError = Some True\<rparr>) \<and>
         (callTool c = WithContent items (Some True) \<longrightarrow>
            fst (proxyToolCall e t callTool s) =
              Return \<lparr>content = items, isError = Some True\<rparr>) \<and>
         snd (proxyToolCall e t callTool s) = touch t s1 \<and>
         map fst (instances (touch t s1)) = map fst (instances s1) \<and>
         p \<in> set (map fst (instances (touch t s1))) \<and>
         trace (touch t s1) = trace s1 \<and>
         (wf s \<longrightarrow> fst (getOrCreateInstance e2 (touch t s1)) = Return (p, c))"
proof -
  note pr = proxyToolCall_Return[OF assms, of t callTool]
  have 1: "callTool c = Threw msg \<longrightarrow>
            fst (proxyToolCall e t callTool s) =
              Return \<lparr>content = [TextItem (''Error: '' @ msg)], isError = Some True\<rparr>"
    by (simp add: pr normalize_def)
  have 2: "callTool c = WithContent items (Some True) \<longrightarrow>
            fst (proxyToolCall e t callTool s) =
              Return \<lparr>content = items, isError = Some True\<rparr>"
    by (simp add: pr normalize_def)
  have 3: "snd (proxyToolCall e t callTool s) = touch t s1" by (simp add: pr)
  have 4: "map fst (instances (touch t s1)) = map fst (instances s1)" by (rule touch_keys)
  from getOrCreateInstance_Return_key[OF assms] obtain w where
    w: "map_of (instances s1) p = Some w" by blast
  then have "p \<in> set (map fst (instances s1))" by (metis map_of_eq_None_iff option.distinct(1) set_map)
  then have 5: "p \<in> set (map fst (instances (touch t s1)))" by (simp only: 4)
  have 6: "trace (touch t s1) = trace s1" by (rule touch_trace)
  have 7: "wf s \<longrightarrow> fst (getOrCreateInstance e2 (touch t s1)) = Return (p, c)"
  proof
    assume wf: "wf s"
    have wf1: "wf s1" using wf_getOrCreateInstance[OF wf, of e] assms by simp
    have wf2: "wf (touch t s1)" using wf1 by (rule wf_touch)
    have ap: "assignedPort s1 = Some p \<and> assignedClient s1 = Some c"
    proof (cases "assignedInstance s")
      case None
      from assms None have "spawnInstance e (checkCapacity (closeThrows e) s) = (Return (p, c), s1)"
        by (simp add: getOrCreateInstance_slow)
      from spawnInstance_Return[OF this] show ?thesis by auto
    next
      case (Some x)
      obtain p' c' w' where x: "x = (p', c', w')" by (cases x)
      from Some x have f: "assignedClient s = Some c'" "assignedPort s = Some p'"
        by (simp_all add: assignedInstance_Some)
      from getOrCreateInstance_fast[of s p' c' w' e] Some x assms
      have "p' = p" "c' = c" "s1 = s\<lparr>instances := AList.update p' (w'\<lparr>lastUsed := now e\<rparr>) (instances s)\<rparr>"
        by simp_all
      then show ?thesis using f by simp
    qed
    have ap2: "assignedPort (touch t s1) = Some p" "assignedClient (touch t s1) = Some c"
      using ap by (simp_all add: touch_assigned)
    from 5 obtain w2 where w2: "map_of (instances (touch t s1)) p = Some w2"
      by (metis map_of_eq_None_iff not_Some_eq set_map)
    from wf_assignedInstance[OF wf2 ap2(1) w2] have
      ai: "assignedInstance (touch t s1) = Some (p, client w2, w2)" .
    then have "assignedClient (touch t s1) = Some (client w2)" by (simp add: assignedInstance_Some)
    with ap2(2) have "client w2 = c" by simp
    with ai have "assignedInstance (touch t s1) = Some (p, c, w2)" by simp
    from getOrCreateInstance_fast[OF this, of e2]
    show "fst (getOrCreateInstance e2 (touch t s1)) = Return (p, c)" by simp
  qed
  show ?thesis by (intro conjI 1 2 3 4 5 6 7)
qed

lemma getOrCreateInstance_smallPool:
  "getOrCreateInstance readyEnv smallPool =
     (Return (9001, 105),
      smallPool\<lparr>instances := [(9000, mkWorker 4 50), (9001, mkWorker 5 1000)]\<rparr>)"
proof -
  have "assignedInstance smallPool = Some (9001, 105, mkWorker 5 20)"
    by (simp add: assignedInstance_def smallPool_def)
  from getOrCreateInstance_fast[OF this, of readyEnv] show ?thesis
    by (simp add: smallPool_def readyEnv_def mkWorker_def)
qed

theorem proxy_failure_is_structured_witness:
  "getOrCreateInstance readyEnv smallPool =
     (Return (9001, 105),
      smallPool\<lparr>instances := [(9000, mkWorker 4 50), (9001, mkWorker 5 1000)]\<rparr>) \<and>
   brokenCall 105 = Threw ''SSE stream closed'' \<and> wf smallPool \<and>
   fst (proxyToolCall readyEnv 2000 brokenCall smallPool) =
     Return \<lparr>content = [TextItem ''Error: SSE stream closed''], isError = Some True\<rparr> \<and>
   map fst (instances (snd (proxyToolCall readyEnv 2000 brokenCall smallPool))) = [9000, 9001] \<and>
   trace (snd (proxyToolCall readyEnv 2000 brokenCall smallPool)) = [] \<and>
   fst (getOrCreateInstance readyEnv (snd (proxyToolCall readyEnv 2000 brokenCall smallPool))) =
     Return (9001, 105) \<and>
   remoteError 105 = WithContent [TextItem ''Timeout 5000ms exceeded''] (Some True) \<and>
   fst (proxyToolCall readyEnv 2000 remoteError smallPool) =
     Return \<lparr>content = [TextItem ''Timeout 5000ms exceeded''], isError = Some True\<rparr> \<and>
   snd (proxyToolCall readyEnv 2000 remoteError smallPool) =
     snd (proxyToolCall readyEnv 2000 brokenCall smallPool)"
proof -
  let ?s1 = "smallPool\<lparr>instances := [(9000, mkWorker 4 50), (9001, mkWorker 5 1000)]\<rparr>"
  have 1: "getOrCreateInstance readyEnv smallPool = (Return (9001, 105), ?s1)"
    by (rule getOrCreateInstance_smallPool)
  have 2: "brokenCall 105 = Threw ''SSE stream closed''" by (simp add: brokenCall_def)
  have 3: "wf smallPool" by (rule wf_smallPool)
  note r = proxy_failure_is_structured[OF 1, of brokenCall "''SSE stream closed''" 2000 "[]" readyEnv]
  from r 2 have 4: "fst (proxyToolCall readyEnv 2000 brokenCall smallPool) =
     Return \<lparr>content = [TextItem ''Error: SSE stream closed''], isError = Some True\<rparr>"
    by simp
  from r have sn: "snd (proxyToolCall readyEnv 2000 brokenCall smallPool) = touch 2000 ?s1"
    by blast
  from r have "map fst (instances (touch 2000 ?s1)) = map fst (instances ?s1)" by blast
  then have 5: "map fst (instances (snd (proxyToolCall readyEnv 2000 brokenCall smallPool))) = [9000, 9001]"
    by (simp add: sn)
  from r have "trace (touch 2000 ?s1) = trace ?s1" by blast
  moreover have "trace ?s1 = []" by (simp add: smallPool_def)
  ultimately have "trace (touch 2000 ?s1) = []" by (rule trans)
  then have 6: "trace (snd (proxyToolCall readyEnv 2000 brokenCall smallPool)) = []"
    by (simp only: sn)
  from r 3 have "fst (getOrCreateInstance readyEnv (touch 2000 ?s1)) = Return (9001, 105)" by blast
  then have 7: "fst (getOrCreateInstance readyEnv (snd (proxyToolCall readyEnv 2000 brokenCall smallPool))) =
     Return (9001, 105)" by (simp only: sn)
  have 8: "remoteError 105 = WithContent [TextItem ''Timeout 5000ms exceeded''] (Some True)"
    by (simp add: remoteError_def)
  note q = proxy_failure_is_structured[OF 1, of remoteError "''x''" 2000
      "[TextItem ''Timeout 5000ms exceeded'']" readyEnv]
  from q 8 have 9: "fst (proxyToolCall readyEnv 2000 remoteError smallPool) =
     Return \<lparr>content = [TextItem ''Timeout 5000ms exceeded''], isError = Some True\<rparr>"
    by blast
  from q have "snd (proxyToolCall readyEnv 2000 remoteError smallPool) = touch 2000 ?s1" by blast
  then have 10: "snd (proxyToolCall readyEnv 2000 remoteError smallPool) =
     snd (proxyToolCall readyEnv 2000 brokenCall smallPool)" by (simp only: sn)
  show ?thesis by (intro conjI 1 2 3 4 5 6 7 8 9 10)
qed

subsection \<open>The cleanup timer\<close>

lemma killInstance_halves:
  "killInstance b port s =
     (case killInstanceBegin b port s of
        (s1, None) \<Rightarrow> s1
      | (s1, Some k) \<Rightarrow> killInstanceResume k s1)"
  by (simp add: killInstance_def killInstanceBegin_def killInstanceResume_def
           split: option.splits)

lemma killInstanceBegin_present:
  "map_of (instances s) port = Some inst \<Longrightarrow>
   killInstanceBegin (cthrows port) port s =
     (s\<lparr>trace := trace s @ [closeEvent cthrows (port, inst)]\<rparr>, Some (port, inst))"
  by (simp add: killInstanceBegin_def closeEvent_def)

lemma wf_killInstanceResume: "wf s \<Longrightarrow> wf (killInstanceResume k s)"
  unfolding killInstanceResume_def by (rule wf_delete)

lemma wf_resumeAll: "wf s \<Longrightarrow> wf (resumeAll ks s)"
  by (induction ks arbitrary: s) (simp_all add: wf_killInstanceResume)

lemma cleanupLoop_eq:
  "(\<forall>x \<in> set xs. map_of (instances s) (fst x) = Some (snd x)) \<Longrightarrow>
   cleanupLoop cthrows t xs (s, ks) =
     (s\<lparr>trace := trace s @ map (closeEvent cthrows) (filter (idle t) xs)\<rparr>,
      ks @ filter (idle t) xs)"
proof (induction xs arbitrary: s ks)
  case Nil
  show ?case by simp
next
  case (Cons a rest)
  obtain p w where a: "a = (p, w)" by (cases a)
  have look: "map_of (instances s) p = Some w" using Cons.prems a by simp
  have rest: "\<forall>x \<in> set rest. map_of (instances s) (fst x) = Some (snd x)"
    using Cons.prems by simp
  show ?case
  proof (cases "idle t a")
    case False
    then have "cleanupLoop cthrows t (a # rest) (s, ks) = cleanupLoop cthrows t rest (s, ks)"
      using a by (simp add: idle_def)
    with Cons.IH[OF rest, of ks] False show ?thesis by simp
  next
    case True
    let ?s1 = "s\<lparr>trace := trace s @ [closeEvent cthrows a]\<rparr>"
    have "cleanupLoop cthrows t (a # rest) (s, ks) = cleanupLoop cthrows t rest (?s1, ks @ [a])"
      using True a killInstanceBegin_present[OF look, of cthrows] by (simp add: idle_def)
    moreover have "\<forall>x \<in> set rest. map_of (instances ?s1) (fst x) = Some (snd x)"
      using rest by simp
    note Cons.IH[OF this, of "ks @ [a]"]
    ultimately show ?thesis using True by simp
  qed
qed

lemma cleanupTick_eq:
  assumes "distinct (map fst (instances s))"
  shows "cleanupTick cthrows t s =
     (s\<lparr>trace := trace s @ map (closeEvent cthrows) (filter (idle t) (instances s))\<rparr>,
      filter (idle t) (instances s))"
proof -
  have "\<forall>x \<in> set (instances s). map_of (instances s) (fst x) = Some (snd x)"
    using assms by simp
  from cleanupLoop_eq[OF this, of cthrows t "[]"] show ?thesis
    by (simp add: cleanupTick_def)
qed

lemma wf_cleanupTick: "wf s \<Longrightarrow> wf (resumeAll ks (fst (cleanupTick cthrows t s)))"
proof -
  assume wf: "wf s"
  have "wf (s\<lparr>trace := tr\<rparr>)" for tr using wf by (simp add: wf_alt)
  then have "wf (fst (cleanupTick cthrows t s))"
    using cleanupTick_eq[OF wf_distinct[OF wf], of cthrows t] by simp
  then show ?thesis by (rule wf_resumeAll)
qed

lemma resumeAll_eq:
  "resumeAll ks s =
     s\<lparr>instances := filter (\<lambda>y. fst y \<notin> fst ` set ks) (instances s),
       trace := trace s @ map killEvent ks\<rparr>"
proof (induction ks arbitrary: s)
  case Nil
  show ?case by simp
next
  case (Cons k ks)
  have f: "filter (\<lambda>y. fst y \<notin> fst ` set ks) (AList.delete (fst k) (instances s)) =
      filter (\<lambda>y. fst y \<notin> fst ` set (k # ks)) (instances s)"
    by (auto simp: AList.delete_eq intro!: filter_cong)
  show ?case
    by (simp add: Cons.IH killInstanceResume_def killEvent_def f[simplified])
qed

lemma filter_idle_keys:
  assumes "distinct (map fst xs)"
  shows "filter (\<lambda>y. fst y \<notin> fst ` set (filter (idle t) xs)) xs = filter (\<lambda>y. \<not> idle t y) xs"
proof (rule filter_cong[OF refl])
  fix y assume y: "y \<in> set xs"
  show "(fst y \<notin> fst ` set (filter (idle t) xs)) = (\<not> idle t y)"
  proof
    assume "fst y \<notin> fst ` set (filter (idle t) xs)"
    then show "\<not> idle t y" using y by force
  next
    assume n: "\<not> idle t y"
    show "fst y \<notin> fst ` set (filter (idle t) xs)"
    proof
      assume "fst y \<in> fst ` set (filter (idle t) xs)"
      then obtain z where z: "z \<in> set xs" "idle t z" "fst z = fst y" by auto
      from assms y z(1,3) have "z = y" by (metis eq_key_imp_eq_value prod.collapse)
      with z(2) n show False by simp
    qed
  qed
qed

text \<open>
  Claim C6. One tick of the cleanup timer. The callback is due every 60 seconds. Run at
  time \<open>t\<close> on a pool whose keys are distinct, it calls \<^verbatim>\<open>close\<close> on the channel of
  each entry with \<open>t - lastUsed > INSTANCE_TIMEOUT_MS\<close>, in the order of the map, and
  returns with the pool as it was and one suspended kill for each of these entries.
  When the suspended kills have resumed, in whatever order, the pool holds exactly the
  entries with \<open>t - lastUsed \<le> INSTANCE_TIMEOUT_MS\<close>, unchanged and in their order,
  and the events after the closes are the kills of the other entries' processes, in the
  order the kills resumed. So every entry idle for more than the timeout is killed and
  removed and every other entry is still there as it was: at the tick due 31 minutes
  after the timer was set, workers last used at 0 and at 30 seconds are killed, and
  workers last used at 1 minute and at 2 minutes stay.
\<close>

theorem cleanup_kills_exactly_the_idle:
  assumes "distinct (map fst (instances s))"
  shows "cleanupTick cthrows t s =
           (s\<lparr>trace := trace s @ map (closeEvent cthrows) (filter (idle t) (instances s))\<rparr>,
            filter (idle t) (instances s)) \<and>
         (set ks = set (filter (idle t) (instances s)) \<longrightarrow>
            instances (resumeAll ks (fst (cleanupTick cthrows t s))) =
              filter (\<lambda>x. \<not> t - lastUsed (snd x) > INSTANCE_TIMEOUT_MS) (instances s) \<and>
            trace (resumeAll ks (fst (cleanupTick cthrows t s))) =
              trace s @ map (closeEvent cthrows) (filter (idle t) (instances s)) @ map killEvent ks \<and>
            (\<forall>x \<in> set (instances s).
               if t - lastUsed (snd x) > INSTANCE_TIMEOUT_MS
               then map_of (instances (resumeAll ks (fst (cleanupTick cthrows t s)))) (fst x) = None \<and>
                    Killed (process (snd x)) \<in> set (trace (resumeAll ks (fst (cleanupTick cthrows t s))))
               else map_of (instances (resumeAll ks (fst (cleanupTick cthrows t s)))) (fst x) =
                      Some (snd x))) \<and>
         tickDue start 0 = start + 60000 \<and>
         tickDue start (Suc k) - tickDue start k = 60000"
proof -
  let ?idle = "filter (idle t) (instances s)"
  let ?keep = "filter (\<lambda>x. \<not> t - lastUsed (snd x) > INSTANCE_TIMEOUT_MS) (instances s)"
  let ?s1 = "fst (cleanupTick cthrows t s)"
  have 1: "cleanupTick cthrows t s =
      (s\<lparr>trace := trace s @ map (closeEvent cthrows) ?idle\<rparr>, ?idle)"
    using assms by (rule cleanupTick_eq)
  have ni: "(\<lambda>y. \<not> idle t y) = (\<lambda>x. \<not> t - lastUsed (snd x) > INSTANCE_TIMEOUT_MS)"
    by (rule ext) (simp add: idle_def)
  have 2: "set ks = set ?idle \<longrightarrow>
            instances (resumeAll ks ?s1) = ?keep \<and>
            trace (resumeAll ks ?s1) = trace s @ map (closeEvent cthrows) ?idle @ map killEvent ks \<and>
            (\<forall>x \<in> set (instances s).
               if t - lastUsed (snd x) > INSTANCE_TIMEOUT_MS
               then map_of (instances (resumeAll ks ?s1)) (fst x) = None \<and>
                    Killed (process (snd x)) \<in> set (trace (resumeAll ks ?s1))
               else map_of (instances (resumeAll ks ?s1)) (fst x) = Some (snd x))"
  proof
    assume ks: "set ks = set ?idle"
    have i: "instances (resumeAll ks ?s1) = ?keep"
    proof -
      have "instances (resumeAll ks ?s1) =
          filter (\<lambda>y. fst y \<notin> fst ` set ks) (instances s)"
        by (simp add: resumeAll_eq 1)
      also have "\<dots> = filter (\<lambda>y. fst y \<notin> fst ` set ?idle) (instances s)"
        by (simp only: ks)
      also have "\<dots> = filter (\<lambda>y. \<not> idle t y) (instances s)"
        using assms by (rule filter_idle_keys)
      finally show ?thesis by (simp only: ni)
    qed
    have tr: "trace (resumeAll ks ?s1) =
        trace s @ map (closeEvent cthrows) ?idle @ map killEvent ks"
      by (simp add: resumeAll_eq 1)
    have df: "distinct (map fst ?keep)" using assms by (rule distinct_map_filter)
    have all: "\<forall>x \<in> set (instances s).
               if t - lastUsed (snd x) > INSTANCE_TIMEOUT_MS
               then map_of (instances (resumeAll ks ?s1)) (fst x) = None \<and>
                    Killed (process (snd x)) \<in> set (trace (resumeAll ks ?s1))
               else map_of (instances (resumeAll ks ?s1)) (fst x) = Some (snd x)"
    proof
      fix x assume x: "x \<in> set (instances s)"
      show "if t - lastUsed (snd x) > INSTANCE_TIMEOUT_MS
               then map_of (instances (resumeAll ks ?s1)) (fst x) = None \<and>
                    Killed (process (snd x)) \<in> set (trace (resumeAll ks ?s1))
               else map_of (instances (resumeAll ks ?s1)) (fst x) = Some (snd x)"
      proof (cases "t - lastUsed (snd x) > INSTANCE_TIMEOUT_MS")
        case True
        have "fst x \<notin> fst ` set ?keep"
        proof
          assume "fst x \<in> fst ` set ?keep"
          then obtain z where z: "z \<in> set (instances s)"
            "\<not> t - lastUsed (snd z) > INSTANCE_TIMEOUT_MS" "fst z = fst x" by auto
          from assms x z(1,3) have "z = x" by (metis eq_key_imp_eq_value prod.collapse)
          with z(2) True show False by simp
        qed
        then have "map_of ?keep (fst x) = None" by (rule map_of_eq_None_iff[THEN iffD2])
        then have a: "map_of (instances (resumeAll ks ?s1)) (fst x) = None" by (simp only: i)
        have "x \<in> set ?idle" using x True by (simp add: idle_def)
        then have "x \<in> set ks" by (simp only: ks)
        then have "killEvent x \<in> set (map killEvent ks)" by simp
        then have "Killed (process (snd x)) \<in> set (trace (resumeAll ks ?s1))"
          unfolding tr by (simp add: killEvent_def)
        with a True show ?thesis by simp
      next
        case False
        then have "(fst x, snd x) \<in> set ?keep" using x by simp
        then have "map_of ?keep (fst x) = Some (snd x)" using df by simp
        then show ?thesis using False by (simp only: i if_False)
      qed
    qed
    from i tr all show "instances (resumeAll ks ?s1) = ?keep \<and>
            trace (resumeAll ks ?s1) = trace s @ map (closeEvent cthrows) ?idle @ map killEvent ks \<and>
            (\<forall>x \<in> set (instances s).
               if t - lastUsed (snd x) > INSTANCE_TIMEOUT_MS
               then map_of (instances (resumeAll ks ?s1)) (fst x) = None \<and>
                    Killed (process (snd x)) \<in> set (trace (resumeAll ks ?s1))
               else map_of (instances (resumeAll ks ?s1)) (fst x) = Some (snd x))"
      by (intro conjI)
  qed
  have 3: "tickDue start 0 = start + 60000"
    by (simp add: tickDue_def CLEANUP_INTERVAL_MS_def)
  have 4: "tickDue start (Suc k) - tickDue start k = 60000"
    by (simp add: tickDue_def CLEANUP_INTERVAL_MS_def)
  show ?thesis by (intro conjI 1 2 3 4)
qed

theorem cleanup_kills_exactly_the_idle_witness:
  "distinct (map fst (instances idlePool)) \<and>
   tickDue 0 30 = 31 * 60 * 1000 \<and>
   tickDue 0 30 - lastUsed (mkWorker 4 0) = 31 * 60 * 1000 \<and>
   tickDue 0 30 - lastUsed (mkWorker 5 120000) = 29 * 60 * 1000 \<and>
   filter (idle (tickDue 0 30)) (instances idlePool) = [(9000, mkWorker 4 0), (9003, mkWorker 7 30000)] \<and>
   set [(9003, mkWorker 7 30000), (9000, mkWorker 4 0)] =
     set (filter (idle (tickDue 0 30)) (instances idlePool)) \<and>
   cleanupTick (\<lambda>p. p = 9003) (tickDue 0 30) idlePool =
     (idlePool\<lparr>trace := [Closed 104, CloseFailed 107]\<rparr>,
      [(9000, mkWorker 4 0), (9003, mkWorker 7 30000)]) \<and>
   instances (resumeAll [(9003, mkWorker 7 30000), (9000, mkWorker 4 0)]
       (fst (cleanupTick (\<lambda>p. p = 9003) (tickDue 0 30) idlePool))) =
     [(9001, mkWorker 5 120000), (9002, mkWorker 6 60000)] \<and>
   trace (resumeAll [(9003, mkWorker 7 30000), (9000, mkWorker 4 0)]
       (fst (cleanupTick (\<lambda>p. p = 9003) (tickDue 0 30) idlePool))) =
     [Closed 104, CloseFailed 107, Killed 7, Killed 4]"
proof -
  let ?t = "tickDue 0 30"
  let ?ks = "[(9003, mkWorker 7 30000), (9000, mkWorker 4 0)]"
  let ?c = "\<lambda>p::int. p = 9003"
  have 1: "distinct (map fst (instances idlePool))" by (simp add: idlePool_def)
  have 2: "?t = 31 * 60 * 1000" by (simp add: tickDue_def CLEANUP_INTERVAL_MS_def)
  have 3: "?t - lastUsed (mkWorker 4 0) = 31 * 60 * 1000" by (simp add: 2 mkWorker_def)
  have 4: "?t - lastUsed (mkWorker 5 120000) = 29 * 60 * 1000" by (simp add: 2 mkWorker_def)
  have 5: "filter (idle ?t) (instances idlePool) = [(9000, mkWorker 4 0), (9003, mkWorker 7 30000)]"
    by (simp add: 2 idle_def idlePool_def mkWorker_def INSTANCE_TIMEOUT_MS_def)
  have 6: "set ?ks = set (filter (idle ?t) (instances idlePool))"
    unfolding 5 by auto
  have k: "filter (\<lambda>x. \<not> ?t - lastUsed (snd x) > INSTANCE_TIMEOUT_MS) (instances idlePool) =
      [(9001, mkWorker 5 120000), (9002, mkWorker 6 60000)]"
    by (simp add: 2 idlePool_def mkWorker_def INSTANCE_TIMEOUT_MS_def)
  have ce: "map (closeEvent ?c) [(9000, mkWorker 4 0), (9003, mkWorker 7 30000)] =
      [Closed 104, CloseFailed 107]"
    by (simp add: closeEvent_def mkWorker_def)
  have ke: "map killEvent ?ks = [Killed 7, Killed 4]"
    by (simp add: killEvent_def mkWorker_def)
  have tr0: "trace idlePool = []" by (simp add: idlePool_def)
  note r = cleanup_kills_exactly_the_idle[OF 1, of ?c ?t ?ks 0 0]
  have 7: "cleanupTick ?c ?t idlePool =
     (idlePool\<lparr>trace := [Closed 104, CloseFailed 107]\<rparr>,
      [(9000, mkWorker 4 0), (9003, mkWorker 7 30000)])"
    using r[THEN conjunct1] unfolding 5 ce tr0 by simp
  note q = r[THEN conjunct2, THEN conjunct1, THEN mp, OF 6]
  have 8: "instances (resumeAll ?ks (fst (cleanupTick ?c ?t idlePool))) =
     [(9001, mkWorker 5 120000), (9002, mkWorker 6 60000)]"
    using q[THEN conjunct1] unfolding k .
  have 9: "trace (resumeAll ?ks (fst (cleanupTick ?c ?t idlePool))) =
     [Closed 104, CloseFailed 107, Killed 7, Killed 4]"
    using q[THEN conjunct2, THEN conjunct1] unfolding 5 ce ke tr0 by simp
  show ?thesis by (intro conjI 1 2 3 4 5 6 7 8 9)
qed

subsection \<open>The range of allocated ports\<close>

lemma spawnInstance_port_fresh:
  assumes "wf s" and "spawnInstance e s = (Return (p, c), s')"
  shows "map_of (instances s) p = None \<and> \<not> isPortInUse e p \<and> BASE_PORT \<le> p"
proof -
  from spawnInstance_Return[OF assms(2)] obtain a where
    fr: "map_of (instances s) p = None" "\<not> isPortInUse e p" and
    fp: "findPort (instances s) (isPortInUse e) (nextPort s) 0 = (p, a)" by blast
  have "BASE_PORT \<le> nextPort s" using assms(1) by (simp add: wf_alt)
  from findPort_ge[OF this fp] fr show ?thesis by simp
qed

text \<open>
  Claim C3. Allocated ports are fresh and stay in the range 9000 to 9100. The first
  half holds: a spawned worker's port has no entry in the pool and is at least
  \<^const>\<open>BASE_PORT\<close> (\<open>spawnInstance_port_fresh\<close>), and the keys of the pool stay distinct
  (\<open>wf_getOrCreateInstance\<close>). The range does not hold. The scan wraps a candidate only
  after incrementing it, and \<^verbatim>\<open>nextPort = port + 1\<close> is not wrapped, so after port 9100
  was allocated the cursor is 9101 and the next scan starts, and ends, at 9101 when that
  port is free, although the error message of the scan names the range 9000-9100. The
  three calls below, from the initial state, allocate 9000, 9100 and 9101.
\<close>

theorem allocation_leaves_range:
  "fst run1 = Return (9000, 7) \<and>
   fst run2 = Return (9100, 8) \<and> nextPort (snd run2) = 9101 \<and>
   fst run3 = Return (9101, 7) \<and> map fst (instances (snd run3)) = [9101] \<and>
   \<not> 9101 \<le> BASE_PORT + 100"
  by code_simp

subsection \<open>The outcomes of the readiness wait\<close>

text \<open>
  Claim C7 says that the wait fails with a timeout error when no response arrives
  within 45 seconds. The deadline is tested only when a probe fails: with a server that
  refuses connections until 45.05 s, the probe started at 44.082 s fails at 44.084 s,
  inside the deadline, the next probe starts at 45.084 s and gets a response, and the
  wait resolves as ready.
\<close>

theorem waitForServer_late_response:
  "waitForServer lateServer 0 45000 = Some Ready \<and>
   lateServer 44082 = Failure 2 \<and> lateServer 45084 = Response 3 503"
  by code_simp

lemma lateServer_fails_before: "t < 45050 \<Longrightarrow> lateServer t = Failure 2"
  by (simp add: lateServer_def)

text \<open>
  Claim C7, as the code has it. The first probe starts 3 seconds after the wait
  (\<^const>\<open>waitForServer\<close> is \<^const>\<open>check\<close> at \<open>start + 3000\<close>); a probe that gets a response of
  any status resolves the wait as ready, whenever it is made; a probe that fails no more
  than \<open>timeout\<close> ms after the start is followed by a probe 1 second after the failure; a
  probe that fails more than \<open>timeout\<close> ms after the start rejects the wait with the
  timeout error. So when every probe fails the wait ends with the timeout error, and the
  timeout error only ever comes from a probe that failed more than \<open>timeout\<close> ms after
  the start.
\<close>

theorem waitForServer_outcomes:
  "(req (start + 3000) = Response d st \<longrightarrow> waitForServer req start timeout = Some Ready) \<and>
   (req t = Response d st \<longrightarrow> check req start timeout t = Some Ready) \<and>
   (req t = Failure d \<and> \<not> timeout < t + int d - start \<longrightarrow>
      check req start timeout t = check req start timeout (t + int d + 1000)) \<and>
   (req t = Failure d \<and> timeout < t + int d - start \<longrightarrow>
      check req start timeout t = Some TimedOut) \<and>
   ((\<forall>u. \<exists>d. req u = Failure d) \<longrightarrow> waitForServer req start timeout = Some TimedOut) \<and>
   (waitForServer req start timeout = Some TimedOut \<longrightarrow>
      (\<exists>u d. start + 3000 \<le> u \<and> req u = Failure d \<and> timeout < u + int d - start))"
proof -
  have 1: "req (start + 3000) = Response d st \<longrightarrow> waitForServer req start timeout = Some Ready"
    unfolding waitForServer_def using check_Response[of req "start + 3000" d st] by blast
  have 2: "req t = Response d st \<longrightarrow> check req start timeout t = Some Ready"
    using check_Response[of req t d st] by blast
  have 3: "req t = Failure d \<and> \<not> timeout < t + int d - start \<longrightarrow>
      check req start timeout t = check req start timeout (t + int d + 1000)"
    using check_Failure_early[of req t d timeout start] by blast
  have 4: "req t = Failure d \<and> timeout < t + int d - start \<longrightarrow>
      check req start timeout t = Some TimedOut"
    using check_Failure_late[of req t d timeout start] by blast
  have 6: "(\<forall>u. \<exists>d. req u = Failure d) \<longrightarrow> waitForServer req start timeout = Some TimedOut"
    unfolding waitForServer_def using check_all_fail[of req start timeout "start + 3000"] by blast
  have 7: "waitForServer req start timeout = Some TimedOut \<longrightarrow>
      (\<exists>u d. start + 3000 \<le> u \<and> req u = Failure d \<and> timeout < u + int d - start)"
    unfolding waitForServer_def using check_TimedOut[of req start timeout "start + 3000"] by blast
  show ?thesis by (intro conjI 1 2 3 4 6 7)
qed

theorem waitForServer_outcomes_witness:
  "lateServer 45084 = Response 3 503 \<and> check lateServer 0 45000 45084 = Some Ready \<and>
   lateServer 44082 = Failure 2 \<and> \<not> (45000::int) < 44082 + int 2 - 0 \<and>
   check lateServer 0 45000 44082 = check lateServer 0 45000 (44082 + int 2 + 1000) \<and>
   (\<forall>u. \<exists>d. deadServer u = Failure d) \<and>
   waitForServer deadServer 500 45000 = Some TimedOut \<and>
   (\<exists>u d. 500 + 3000 \<le> u \<and> deadServer u = Failure d \<and> 45000 < u + int d - 500)"
proof -
  have a: "lateServer 45084 = Response 3 503" by (simp add: lateServer_def)
  have b: "lateServer 44082 = Failure 2" by (simp add: lateServer_def)
  have c: "\<not> (45000::int) < 44082 + int 2 - 0" by simp
  have d: "\<forall>u. \<exists>d. deadServer u = Failure d" by (simp add: deadServer_def)
  note r1 = waitForServer_outcomes[of lateServer 0 3 503 45000 45084]
  note r2 = waitForServer_outcomes[of lateServer 0 2 503 45000 44082]
  note r3 = waitForServer_outcomes[of deadServer 500 0 0 45000 0]
  from r1 a have 1: "check lateServer 0 45000 45084 = Some Ready" by blast
  from r2 b c have 2: "check lateServer 0 45000 44082 = check lateServer 0 45000 (44082 + int 2 + 1000)"
    by blast
  from r3 d have 3: "waitForServer deadServer 500 45000 = Some TimedOut" by blast
  from r3 3 have 4: "\<exists>u d. 500 + 3000 \<le> u \<and> deadServer u = Failure d \<and> 45000 < u + int d - 500"
    by blast
  show ?thesis by (intro conjI a 1 b c 2 d 3 4)
qed

end
